theory Spec2Isabelle
  imports Main "HOL-Library.AList"
begin

section \<open>JavaScript values and string helpers\<close>

text \<open>
  Values bound to SQL parameters are JavaScript values of type \<^verbatim>\<open>any\<close>.  An absent
  optional property reads as \<open>JUndefined\<close>.  Numbers are restricted to integers, and an
  object (or array) is represented by the text \<^verbatim>\<open>JSON.stringify\<close> yields for it.
  Strings are byte strings; case conversion and trimming are modelled on ASCII.
\<close>

datatype jsval = JUndefined | JNull | JBool bool | JNum int | JStr string | JObj string

type_synonym ref = nat

text \<open>\<^verbatim>\<open>typeof v === 'object' ? JSON.stringify(v) : v\<close>; \<^verbatim>\<open>typeof null\<close> is \<^verbatim>\<open>'object'\<close>.\<close>

fun bindParam :: "jsval \<Rightarrow> jsval" where
  "bindParam JNull = JStr ''null''"
| "bindParam (JObj j) = JStr j"
| "bindParam v = v"

text \<open>\<^verbatim>\<open>Array.prototype.join\<close>.\<close>

fun join :: "string \<Rightarrow> string list \<Rightarrow> string" where
  "join sep [] = []"
| "join sep [x] = x"
| "join sep (x # y # ys) = x @ sep @ join sep (y # ys)"

text \<open>\<^verbatim>\<open>String.prototype.split\<close> with a one-character separator: the empty string
  splits into one empty token, adjacent separators give empty tokens.\<close>

fun splitOn :: "char \<Rightarrow> string \<Rightarrow> string list" where
  "splitOn c [] = [[]]"
| "splitOn c (x # xs) =
     (if x = c then [] # splitOn c xs
      else (case splitOn c xs of t # ts \<Rightarrow> (x # t) # ts | [] \<Rightarrow> [[x]]))"

definition upperChar :: "char \<Rightarrow> char" where
  "upperChar c = (let n = (of_char c :: nat) in if 97 \<le> n \<and> n \<le> 122 then char_of (n - 32) else c)"

definition lowerChar :: "char \<Rightarrow> char" where
  "lowerChar c = (let n = (of_char c :: nat) in if 65 \<le> n \<and> n \<le> 90 then char_of (n + 32) else c)"

definition toUpperCase :: "string \<Rightarrow> string" where
  "toUpperCase s = map upperChar s"

definition toLowerCase :: "string \<Rightarrow> string" where
  "toLowerCase s = map lowerChar s"

definition isSpace :: "char \<Rightarrow> bool" where
  "isSpace c = ((of_char c :: nat) \<in> {32, 9, 10, 11, 12, 13})"

definition trim :: "string \<Rightarrow> string" where
  "trim s = rev (dropWhile isSpace (rev (dropWhile isSpace s)))"

text \<open>\<^verbatim>\<open>Array.prototype.indexOf\<close>: the first position, or \<open>-1\<close>.\<close>

fun indexOf :: "'a list \<Rightarrow> 'a \<Rightarrow> int" where
  "indexOf [] x = - 1"
| "indexOf (y # ys) x =
     (if y = x then 0 else (let i = indexOf ys x in if i = - 1 then - 1 else i + 1))"

definition endsWith :: "string \<Rightarrow> string \<Rightarrow> bool" where
  "endsWith s sfx = (length sfx \<le> length s \<and> drop (length s - length sfx) s = sfx)"

text \<open>
  A number inside a template literal is rendered by the runtime's Number-to-String
  conversion.  That conversion is a parameter of the code that uses it
  (\<open>numberToString\<close> below), so nothing is assumed about it.  For an integer of
  magnitude below \<open>10^21\<close> it yields the decimal text \<open>showInt\<close>, which the examples use.
\<close>

fun showNat :: "nat \<Rightarrow> string" where
  "showNat n =
     (if n < 10 then [''0123456789'' ! n]
      else showNat (n div 10) @ [''0123456789'' ! (n mod 10)])"

declare showNat.simps [simp del]

definition showInt :: "int \<Rightarrow> string" where
  "showInt i = (if i < 0 then ''-'' @ showNat (nat (- i)) else showNat (nat i))"

text \<open>Insertion into a JavaScript \<^verbatim>\<open>Set\<close>, kept as the list of its members in
  insertion order (what \<^verbatim>\<open>Array.from\<close> returns).\<close>

definition setAdd :: "'a list \<Rightarrow> 'a \<Rightarrow> 'a list" where
  "setAdd xs x = (if x \<in> set xs then xs else xs @ [x])"

text \<open>A string between single quotes, as the error messages quote keys and role names.\<close>

definition quoted :: "string \<Rightarrow> string" where
  "quoted s = [CHR 0x27] @ s @ [CHR 0x27]"

subsection \<open>Plain objects used as dictionaries\<close>

text \<open>
  The connection map, the role registry and the type mappings are plain objects
  indexed by arbitrary strings.  Reading \<^verbatim>\<open>obj[key]\<close> yields the own property of that
  name if there is one; otherwise the member of that name which every plain object
  inherits from \<^verbatim>\<open>Object.prototype\<close>, if \<open>key\<close> names one; otherwise \<^verbatim>\<open>undefined\<close>.
  The inherited members (ECMAScript, Annex B included) are functions, and for
  \<^verbatim>\<open>__proto__\<close> the object \<^verbatim>\<open>Object.prototype\<close> itself: each of them is truthy, and
  none has any of the properties or methods the code goes on to use.  Own properties
  are given as a map; \<open>Value v\<close> is a proper value and \<open>Inherited m\<close> the inherited
  member named \<open>m\<close>.
\<close>

definition objectPrototypeMembers :: "string list" where
  "objectPrototypeMembers =
     [''constructor'', ''hasOwnProperty'', ''isPrototypeOf'', ''propertyIsEnumerable'',
      ''toLocaleString'', ''toString'', ''valueOf'', ''__proto__'', ''__defineGetter__'',
      ''__defineSetter__'', ''__lookupGetter__'', ''__lookupSetter__'']"

datatype 'a property = Value 'a | Inherited string

definition getProperty :: "(string \<rightharpoonup> 'a) \<Rightarrow> string \<Rightarrow> 'a property option" where
  "getProperty own key =
     (case own key of
        Some v \<Rightarrow> Some (Value v)
      | None \<Rightarrow> if key \<in> set objectPrototypeMembers then Some (Inherited key) else None)"

section \<open>Errors\<close>

text \<open>
  Every \<^verbatim>\<open>throw new Error(...)\<close> of the source is one constructor, named after its
  message.  \<open>Native\<close> is a rejection coming from the SQLite binding or the file system,
  with its text; \<open>Thrown\<close> is an error raised by caller-supplied code (a callback);
  \<open>TypeError\<close> is raised by the runtime when a property of \<^verbatim>\<open>undefined\<close> is read or a
  value that is not a function is called, and carries the expression that failed (the
  message text itself is the engine's).
\<close>

datatype error =
    AccessDenied string "string list"
  | NotConnected string
  | TransactionAlreadyInProgress
  | NoTransactionInProgress
  | DatabaseNotInitialized
  | NoValidColumnsToInsert
  | NoColumnsToUpdate
  | WhereRequiredForUpdate
  | WhereRequiredForDelete
  | RoleNotRegistered string
  | SchemaKeyNotFound string
  | InvalidDatabaseKey string
  | DatabaseFileMissing string
  | MaxConnectionsReached
  | RequiredInitFailed "(string \<times> string) list"
  | Native string
  | Thrown string
  | TypeError string

text \<open>\<^verbatim>\<open>error.message\<close>.  \<open>DatabaseFileMissing\<close> carries the path that was looked up and
  \<open>RequiredInitFailed\<close> the key and message of each failed initialization.\<close>

fun message :: "error \<Rightarrow> string" where
  "message (AccessDenied key roles) =
     ''Access denied: Database '' @ quoted key
       @ '' is not accessible by current user roles: '' @ join '', '' roles"
| "message (NotConnected key) =
     ''Database '' @ quoted key @ '' is not connected. Please ensure it'' @ [CHR 0x27]
       @ ''s initialized for current user roles.''"
| "message TransactionAlreadyInProgress = ''Transaction already in progress''"
| "message NoTransactionInProgress = ''No transaction in progress''"
| "message DatabaseNotInitialized = ''Database is not initialized''"
| "message NoValidColumnsToInsert = ''No valid columns to insert''"
| "message NoColumnsToUpdate = ''No columns to update''"
| "message WhereRequiredForUpdate = ''WHERE clause is required for UPDATE operation''"
| "message WhereRequiredForDelete = ''WHERE clause is required for DELETE operation''"
| "message (RoleNotRegistered r) =
     ''Role '' @ quoted r @ '' is not registered. Please register it first.''"
| "message (SchemaKeyNotFound k) =
     ''Database key '' @ quoted k @ '' not found in schemaConfigurations.''"
| "message (InvalidDatabaseKey k) =
     ''Invalid database key: '' @ k @ ''. Not found in schemaConfigurations.''"
| "message (DatabaseFileMissing dbPath) = ''Database file does not exist at: '' @ dbPath"
| "message MaxConnectionsReached = ''Maximum number of database connections reached''"
| "message (RequiredInitFailed failed) =
     ''Failed to initialize required databases for user roles:'' @ [CHR 0x0A]
       @ join [CHR 0x0A] (map (\<lambda>(key, m). ''  - '' @ key @ '': '' @ m) failed)"
| "message (Native m) = m"
| "message (Thrown m) = m"
| "message (TypeError m) = m"

section \<open>SQLiteDAO: declarative descriptors\<close>

text \<open>
  The interfaces of the source, with a prefix on field names that several of them
  share.  An optional property is an \<open>option\<close>, except the \<^verbatim>\<open>value\<close> of a column,
  which is \<open>JUndefined\<close> when absent.  Of a column definition, \<^verbatim>\<open>description\<close> and
  \<^verbatim>\<open>length\<close> are never read and are left out; its \<^verbatim>\<open>type\<close> is a string in a schema
  and whatever the type mapping returned in a processed column, so the record is
  generic in it.
\<close>

record Column =
  col_name :: string
  col_value :: jsval

record WhereClause =
  w_name :: string
  w_value :: jsval
  w_operator :: "string option"

datatype direction = ASC | DESC

record OrderByClause =
  ob_name :: string
  ob_direction :: "direction option"

record LimitOffset =
  limit :: "int option"
  offset :: "int option"

record QueryTable =
  qt_name :: string
  cols :: "Column list"
  wheres :: "WhereClause list option"
  orderbys :: "OrderByClause list option"
  limitOffset :: "LimitOffset option"

record 't ColumnDefinition =
  cd_name :: string
  cd_type :: 't
  option_key :: "string option"
  nullable :: "bool option"
  cd_default :: "jsval option"
  primary_key :: "bool option"
  auto_increment :: "bool option"
  cd_unique :: "bool option"
  constraints :: "string option"

type_synonym typeMapping = "string \<rightharpoonup> (string \<rightharpoonup> string)"

subsection \<open>Type mapping and the column-constraint scanner\<close>

text \<open>\<^verbatim>\<open>defaultMapping[genericType.toLowerCase()] || 'TEXT'\<close>, on a plain object.\<close>

definition getDefaultSQLiteType :: "string \<Rightarrow> string property" where
  "getDefaultSQLiteType genericType =
     (case getProperty (map_of
        [(''string'', ''TEXT''), (''varchar'', ''TEXT''), (''char'', ''TEXT''),
         (''email'', ''TEXT''), (''url'', ''TEXT''), (''uuid'', ''TEXT''),
         (''integer'', ''INTEGER''), (''bigint'', ''INTEGER''), (''smallint'', ''INTEGER''),
         (''tinyint'', ''INTEGER''), (''decimal'', ''REAL''), (''numeric'', ''REAL''),
         (''float'', ''REAL''), (''double'', ''REAL''), (''boolean'', ''INTEGER''),
         (''timestamp'', ''TEXT''), (''datetime'', ''TEXT''), (''date'', ''TEXT''),
         (''time'', ''TEXT''), (''json'', ''TEXT''), (''array'', ''TEXT''),
         (''blob'', ''BLOB''), (''binary'', ''BLOB'')])
        (toLowerCase genericType) of
        Some t \<Rightarrow> t
      | None \<Rightarrow> Value ''TEXT'')"

text \<open>The type mapping comes from a JSON schema, so it is a plain object as well; an
  empty string in it is falsy.\<close>

definition convertToSQLiteType :: "typeMapping option \<Rightarrow> string \<Rightarrow> string property" where
  "convertToSQLiteType cfg genericType =
     (case cfg of
        None \<Rightarrow> getDefaultSQLiteType genericType
      | Some m \<Rightarrow>
          (case m ''sqlite'' of
             None \<Rightarrow> getDefaultSQLiteType genericType
           | Some sqliteMapping \<Rightarrow>
               (case getProperty sqliteMapping (toLowerCase genericType) of
                  None \<Rightarrow> Value ''TEXT''
                | Some (Inherited p) \<Rightarrow> Inherited p
                | Some (Value sqliteType) \<Rightarrow>
                    if sqliteType = [] then Value ''TEXT'' else Value sqliteType)))"

text \<open>
  The body of \<^verbatim>\<open>if (col.constraints) { ... }\<close> in \<^verbatim>\<open>processColumnDefinition\<close>: the
  five tests run in this order over the token list, each pushing onto \<^verbatim>\<open>options\<close>
  and setting its flag of \<^verbatim>\<open>processedCol\<close>.  The flags read by the second and the
  fourth test are those of \<^verbatim>\<open>processedCol\<close>, which starts as a copy of the input column.
\<close>

definition scanConstraints ::
  "string list \<Rightarrow> 't ColumnDefinition \<Rightarrow> string list \<times> 't ColumnDefinition" where
  "scanConstraints cs p0 =
     (let (o1, p1) =
            (if ''PRIMARY'' \<in> set cs
             then ([''PRIMARY KEY''], p0\<lparr>primary_key := Some True\<rparr>)
             else ([], p0));
          (o2, p2) =
            (if ''AUTO_INCREMENT'' \<in> set cs \<or> ''AUTOINCREMENT'' \<in> set cs
             then ((if primary_key p1 = Some True then o1 @ [''AUTOINCREMENT''] else o1),
                   p1\<lparr>auto_increment := Some True\<rparr>)
             else (o1, p1));
          (o3, p3) =
            (if ''NOT'' \<in> set cs \<and> ''NULL'' \<in> set cs
             then (o2 @ [''NOT NULL''], p2\<lparr>nullable := Some False\<rparr>)
             else (o2, p2));
          (o4, p4) =
            (if ''UNIQUE'' \<in> set cs
             then ((if primary_key p3 \<noteq> Some True then o3 @ [''UNIQUE''] else o3),
                   p3\<lparr>cd_unique := Some True\<rparr>)
             else (o3, p3));
          defaultIndex = indexOf cs ''DEFAULT''
      in if defaultIndex \<noteq> - 1 \<and> int (length cs) > defaultIndex + 1
         then (let defaultValue = cs ! nat (defaultIndex + 1)
               in (o4 @ [''DEFAULT '' @ defaultValue], p4\<lparr>cd_default := Some (JStr defaultValue)\<rparr>))
         else (o4, p4))"

text \<open>\<^verbatim>\<open>processedCol = {...col}\<close> with the type replaced by the converted one.\<close>

definition processColumnDefinition ::
  "typeMapping option \<Rightarrow> string ColumnDefinition \<Rightarrow> string property ColumnDefinition" where
  "processColumnDefinition cfg col =
     (let processedCol =
            \<lparr>cd_name = cd_name col, cd_type = convertToSQLiteType cfg (cd_type col),
             option_key = option_key col, nullable = nullable col,
             cd_default = cd_default col, primary_key = primary_key col,
             auto_increment = auto_increment col, cd_unique = cd_unique col,
             constraints = constraints col\<rparr>;
          (options, processedCol') =
            (case constraints col of
               None \<Rightarrow> ([], processedCol)
             | Some c \<Rightarrow>
                 if c = [] then ([], processedCol)
                 else scanConstraints (splitOn CHR '' '' (toUpperCase c)) processedCol)
      in processedCol'\<lparr>option_key := Some (trim (join '' '' options))\<rparr>)"

subsection \<open>The declarative query builder\<close>

definition buildWhereClause :: "WhereClause list option \<Rightarrow> string \<Rightarrow> string \<times> jsval list" where
  "buildWhereClause ws clause =
     (case ws of
        None \<Rightarrow> ([], [])
      | Some wl \<Rightarrow>
          if length wl = 0 then ([], [])
          else ('' '' @ clause @ '' '' @ join '' AND '' (map (\<lambda>w. w_name w @ '' = ?'') wl),
                map w_value wl))"

definition orderText :: "OrderByClause \<Rightarrow> string" where
  "orderText ob =
     ob_name ob @ '' '' @ (case ob_direction ob of Some DESC \<Rightarrow> ''DESC'' | _ \<Rightarrow> ''ASC'')"

text \<open>Truthiness of an optional number: \<^verbatim>\<open>undefined\<close> and \<open>0\<close> are falsy.\<close>

definition truthyNum :: "int option \<Rightarrow> bool" where
  "truthyNum n = (case n of None \<Rightarrow> False | Some i \<Rightarrow> i \<noteq> 0)"

text \<open>\<open>numberToString\<close> is the runtime's Number-to-String conversion, used by the
  template literals of the \<^verbatim>\<open>LIMIT\<close> and \<^verbatim>\<open>OFFSET\<close> clauses.\<close>

definition buildSelectQuery ::
  "(int \<Rightarrow> string) \<Rightarrow> QueryTable \<Rightarrow> string \<Rightarrow> string \<times> jsval list" where
  "buildSelectQuery numberToString selectTable suffix =
     (let columns =
            (if length (cols selectTable) > 0
             then join '', '' (map col_name (cols selectTable)) else ''*'');
          sql0 = ''SELECT '' @ columns @ '' FROM '' @ qt_name selectTable;
          whereClause = buildWhereClause (wheres selectTable) ''WHERE'';
          sql1 = sql0 @ fst whereClause;
          sql2 =
            (case orderbys selectTable of
               None \<Rightarrow> sql1
             | Some obs \<Rightarrow>
                 if length obs = 0 then sql1
                 else sql1 @ '' ORDER BY '' @ join '', '' (map orderText obs));
          sql3 =
            (case limitOffset selectTable of
               None \<Rightarrow> sql2
             | Some lo \<Rightarrow>
                 (let s = (if truthyNum (limit lo)
                           then sql2 @ '' LIMIT '' @ numberToString (the (limit lo)) else sql2)
                  in if truthyNum (offset lo)
                     then s @ '' OFFSET '' @ numberToString (the (offset lo)) else s))
      in (sql3 @ suffix, snd whereClause))"

text \<open>The statement and parameter list each CRUD method hands to \<^verbatim>\<open>runSql\<close>, or the
  error it throws before reaching it.\<close>

definition insertStatement :: "QueryTable \<Rightarrow> error + string \<times> jsval list" where
  "insertStatement insertTable =
     (let validCols =
            filter (\<lambda>c. col_value c \<noteq> JUndefined \<and> col_value c \<noteq> JNull) (cols insertTable)
      in if length validCols = 0 then Inl NoValidColumnsToInsert
         else (let columnNames = join '', '' (map col_name validCols);
                   placeholders = join '', '' (map (\<lambda>c. ''?'') validCols);
                   params = map (\<lambda>c. bindParam (col_value c)) validCols
               in Inr (''INSERT INTO '' @ qt_name insertTable @ '' ('' @ columnNames
                         @ '') VALUES ('' @ placeholders @ '')'', params)))"

definition setColumns :: "QueryTable \<Rightarrow> Column list" where
  "setColumns updateTable =
     filter (\<lambda>c. col_value c \<noteq> JUndefined \<and>
                 \<not> (case wheres updateTable of
                      None \<Rightarrow> False
                    | Some wl \<Rightarrow> list_ex (\<lambda>w. w_name w = col_name c) wl))
            (cols updateTable)"

definition updateStatement :: "QueryTable \<Rightarrow> error + string \<times> jsval list" where
  "updateStatement updateTable =
     (let setCols = setColumns updateTable
      in if length setCols = 0 then Inl NoColumnsToUpdate
         else (let setClause = join '', '' (map (\<lambda>c. col_name c @ '' = ?'') setCols);
                   params = map (\<lambda>c. bindParam (col_value c)) setCols;
                   sql = ''UPDATE '' @ qt_name updateTable @ '' SET '' @ setClause;
                   whereClause = buildWhereClause (wheres updateTable) ''WHERE''
               in if fst whereClause = [] then Inl WhereRequiredForUpdate
                  else Inr (sql @ fst whereClause, params @ snd whereClause)))"

definition deleteStatement :: "QueryTable \<Rightarrow> error + string \<times> jsval list" where
  "deleteStatement deleteTable =
     (let sql = ''DELETE FROM '' @ qt_name deleteTable;
          whereClause = buildWhereClause (wheres deleteTable) ''WHERE''
      in if fst whereClause = [] then Inl WhereRequiredForDelete
         else Inr (sql @ fst whereClause, snd whereClause))"

section \<open>The object store and the native bindings\<close>

text \<open>
  DAO and service objects are shared by reference between the manager, the services and
  the service registry, so they live in an explicit store.  \<open>db\<close> tells whether the
  native handle field is non-null.  Every call that reaches the native SQLite binding is
  appended to \<open>trace\<close> (for a statement, with whether the binding resolved).
\<close>

record SQLiteDAO =
  dbName :: string
  db :: bool
  isOpen :: bool
  inTransaction :: bool

datatype event =
    NativeOpen ref
  | NativeExec ref string "jsval list" bool
  | NativeClose ref

type_synonym row = "(string \<times> jsval) list"

text \<open>
  The collaborators outside the repository.  The SQLite binding: \<open>openDatabase\<close> and
  \<open>closeDatabase\<close> give the rejection, or \<open>None\<close> when the promise resolves;
  \<open>executeSql\<close>, for a database file, a statement and its parameters, gives the
  rejection or the rows of the first result set.  The file system: the documents
  directory, the rejection (if any) of making sure that a directory exists, and whether
  a file exists.  \<open>schemaConfigurations k\<close> tells whether \<^verbatim>\<open>schemaConfigurations[k]\<close> is
  truthy, which is all the code reads of the schema registry.  \<open>numberToString\<close> is the
  runtime's Number-to-String conversion.
\<close>

record env =
  openDatabase :: "string \<Rightarrow> error option"
  executeSql :: "string \<Rightarrow> string \<Rightarrow> jsval list \<Rightarrow> error + row list"
  closeDatabase :: "string \<Rightarrow> error option"
  documentDirectoryPath :: string
  ensureDirectory :: "string \<Rightarrow> error option"
  fileExists :: "string \<Rightarrow> bool"
  schemaConfigurations :: "string \<Rightarrow> bool"
  numberToString :: "int \<Rightarrow> string"

record RoleConfig =
  roleName :: string
  requiredDatabases :: "string list"
  optionalDatabases :: "string list option"
  priority :: "int option"

text \<open>
  What a read of the connection map yields: a DAO, or an inherited member.  The same
  goes for whatever was obtained from such a read (the \<^verbatim>\<open>dao\<close> field of a service, the
  handles of a cross-schema transaction).
\<close>

type_synonym handle = "ref property"

text \<open>
  Event listeners and error handlers are caller-supplied closures; a service keeps the
  names they are registered under, and each invocation is recorded in \<open>notified\<close>.
\<close>

record BaseService =
  svcClass :: string
  schemaName :: string
  tableName :: string
  dao :: "handle option"
  isOpened :: bool
  isInitialized :: bool
  primaryKeyFields :: "string list"
  eventListeners :: "string list"
  errorHandlers :: "string list"

record ServiceConfig =
  sc_schemaName :: string
  sc_tableName :: string
  sc_primaryKeyFields :: "string list option"
  autoInit :: "bool option"
  serviceClass :: "string option"

record FindOptions =
  orderBy :: "OrderByClause list option"
  fo_limit :: "int option"
  fo_offset :: "int option"
  columns :: "string list option"

text \<open>
  The store, the static fields of \<^verbatim>\<open>DatabaseManager\<close> and the fields of the
  \<^verbatim>\<open>ServiceManager\<close> singleton.  \<open>connections\<close> holds the own properties of the
  connection map in insertion order and \<open>roleRegistry\<close> those of the role registry;
  both are plain objects and are read with \<open>getProperty\<close>.  Every assignment to the
  connection map below follows a read that found nothing under the key, so none of
  them hits an inherited name.  \<open>services\<close> and \<open>serviceConfigs\<close> are \<^verbatim>\<open>Map\<close>s
  (\<open>services\<close> in insertion order).
\<close>

record world =
  daos :: "ref \<Rightarrow> SQLiteDAO"
  nextDao :: ref
  svcs :: "ref \<Rightarrow> BaseService"
  nextSvc :: ref
  trace :: "event list"
  notified :: "(ref \<times> string) list"
  connections :: "(string \<times> ref) list"
  roleRegistry :: "string \<rightharpoonup> RoleConfig"
  currentUserRoles :: "string list"
  currentRole :: "string option"
  mgrInitialized :: bool
  appStateListener :: bool
  services :: "(string \<times> ref) list"
  serviceConfigs :: "string \<rightharpoonup> ServiceConfig"
  smEmitted :: "(string \<times> string) list"

definition updDao :: "ref \<Rightarrow> (SQLiteDAO \<Rightarrow> SQLiteDAO) \<Rightarrow> world \<Rightarrow> world" where
  "updDao r f w = w\<lparr>daos := (daos w)(r := f (daos w r))\<rparr>"

definition updSvc :: "ref \<Rightarrow> (BaseService \<Rightarrow> BaseService) \<Rightarrow> world \<Rightarrow> world" where
  "updSvc s f w = w\<lparr>svcs := (svcs w)(s := f (svcs w s))\<rparr>"

definition record_event :: "event \<Rightarrow> world \<Rightarrow> world" where
  "record_event e w = w\<lparr>trace := trace w @ [e]\<rparr>"

text \<open>\<^verbatim>\<open>this.connections[key]\<close>.\<close>

definition connection :: "world \<Rightarrow> string \<Rightarrow> handle option" where
  "connection w key = getProperty (map_of (connections w)) key"

section \<open>SQLiteDAO: connection, statements, transactions\<close>

text \<open>Methods take the receiver as a reference into the store.  An asynchronous method
  is modelled as one call that runs to completion.\<close>

definition isConnected :: "SQLiteDAO \<Rightarrow> bool" where
  "isConnected d = (isOpen d \<and> db d)"

definition connect :: "env \<Rightarrow> ref \<Rightarrow> world \<Rightarrow> (error + unit) \<times> world" where
  "connect E r w =
     (let d = daos w r
      in if isOpen d then (Inr (), w)
         else (let w1 = record_event (NativeOpen r) w
               in case openDatabase E (dbName d) of
                    None \<Rightarrow> (Inr (), updDao r (\<lambda>d. d\<lparr>db := True, isOpen := True\<rparr>) w1)
                  | Some e \<Rightarrow> (Inl e, updDao r (\<lambda>d. d\<lparr>isOpen := False\<rparr>) w1)))"

definition runSql ::
  "env \<Rightarrow> ref \<Rightarrow> string \<Rightarrow> jsval list \<Rightarrow> world \<Rightarrow> (error + string) \<times> world" where
  "runSql E r sql params w =
     (let d = daos w r
      in if \<not> db d \<or> \<not> isOpen d then (Inl DatabaseNotInitialized, w)
         else (case executeSql E (dbName d) sql params of
                 Inl e \<Rightarrow> (Inl e, record_event (NativeExec r sql params False) w)
               | Inr _ \<Rightarrow> (Inr (''Executed: '' @ sql),
                           record_event (NativeExec r sql params True) w)))"


definition daoClose :: "env \<Rightarrow> ref \<Rightarrow> world \<Rightarrow> (error + unit) \<times> world" where
  "daoClose E r w =
     (let d = daos w r
      in if db d \<and> isOpen d
         then (let w1 = record_event (NativeClose r) w
               in case closeDatabase E (dbName d) of
                    Some e \<Rightarrow> (Inl e, w1)
                  | None \<Rightarrow> (Inr (), updDao r (\<lambda>d. d\<lparr>isOpen := False, db := False\<rparr>) w1))
         else (Inr (), w))"

definition beginTransaction :: "env \<Rightarrow> ref \<Rightarrow> world \<Rightarrow> (error + unit) \<times> world" where
  "beginTransaction E r w =
     (if inTransaction (daos w r) then (Inl TransactionAlreadyInProgress, w)
      else (case runSql E r ''BEGIN TRANSACTION'' [] w of
              (Inl e, w1) \<Rightarrow> (Inl e, w1)
            | (Inr _, w1) \<Rightarrow> (Inr (), updDao r (\<lambda>d. d\<lparr>inTransaction := True\<rparr>) w1)))"

definition commitTransaction :: "env \<Rightarrow> ref \<Rightarrow> world \<Rightarrow> (error + unit) \<times> world" where
  "commitTransaction E r w =
     (if \<not> inTransaction (daos w r) then (Inl NoTransactionInProgress, w)
      else (case runSql E r ''COMMIT'' [] w of
              (Inl e, w1) \<Rightarrow> (Inl e, w1)
            | (Inr _, w1) \<Rightarrow> (Inr (), updDao r (\<lambda>d. d\<lparr>inTransaction := False\<rparr>) w1)))"

definition rollbackTransaction :: "env \<Rightarrow> ref \<Rightarrow> world \<Rightarrow> (error + unit) \<times> world" where
  "rollbackTransaction E r w =
     (if \<not> inTransaction (daos w r) then (Inl NoTransactionInProgress, w)
      else (case runSql E r ''ROLLBACK'' [] w of
              (Inl e, w1) \<Rightarrow> (Inl e, w1)
            | (Inr _, w1) \<Rightarrow> (Inr (), updDao r (\<lambda>d. d\<lparr>inTransaction := False\<rparr>) w1)))"

text \<open>
  The number of transactions a handle has open at the engine, read off the trace:
  statements that resolved, \<^verbatim>\<open>BEGIN TRANSACTION\<close> counting up and \<^verbatim>\<open>COMMIT\<close> or
  \<^verbatim>\<open>ROLLBACK\<close> counting down.
\<close>

fun txDelta :: "ref \<Rightarrow> event \<Rightarrow> int" where
  "txDelta r (NativeExec r' sql ps ok) =
     (if r' = r \<and> ok
      then (if sql = ''BEGIN TRANSACTION'' then 1
            else if sql = ''COMMIT'' \<or> sql = ''ROLLBACK'' then - 1 else 0)
      else 0)"
| "txDelta r (NativeOpen r') = 0"
| "txDelta r (NativeClose r') = 0"

definition openTransactions :: "ref \<Rightarrow> event list \<Rightarrow> int" where
  "openTransactions r tr = sum_list (map (txDelta r) tr)"

definition txInvariant :: "ref \<Rightarrow> world \<Rightarrow> bool" where
  "txInvariant r w =
     (openTransactions r (trace w) = (if inTransaction (daos w r) then 1 else 0))"

text \<open>The CRUD methods: build the statement, then \<^verbatim>\<open>runSql\<close> or \<^verbatim>\<open>getRsts\<close>.\<close>

definition daoInsert :: "env \<Rightarrow> ref \<Rightarrow> QueryTable \<Rightarrow> world \<Rightarrow> (error + string) \<times> world" where
  "daoInsert E r t w =
     (case insertStatement t of
        Inl e \<Rightarrow> (Inl e, w)
      | Inr (sql, params) \<Rightarrow> runSql E r sql params w)"

definition daoUpdate :: "env \<Rightarrow> ref \<Rightarrow> QueryTable \<Rightarrow> world \<Rightarrow> (error + string) \<times> world" where
  "daoUpdate E r t w =
     (case updateStatement t of
        Inl e \<Rightarrow> (Inl e, w)
      | Inr (sql, params) \<Rightarrow> runSql E r sql params w)"

definition daoDelete :: "env \<Rightarrow> ref \<Rightarrow> QueryTable \<Rightarrow> world \<Rightarrow> (error + string) \<times> world" where
  "daoDelete E r t w =
     (case deleteStatement t of
        Inl e \<Rightarrow> (Inl e, w)
      | Inr (sql, params) \<Rightarrow> runSql E r sql params w)"


section \<open>DatabaseFactory\<close>

text \<open>\<^verbatim>\<open>openExisting\<close>, called without options: the directory is the documents
  directory; a new DAO object is constructed, connected and checked; on a failure it
  is closed again and the error rethrown (an error of that close replaces it).\<close>

definition openExisting :: "env \<Rightarrow> string \<Rightarrow> world \<Rightarrow> (error + ref) \<times> world" where
  "openExisting E name w =
     (let outputDir = documentDirectoryPath E
      in case ensureDirectory E outputDir of
           Some e \<Rightarrow> (Inl e, w)
         | None \<Rightarrow>
      (let dbFileName = (if endsWith name ''.db'' then name else name @ ''.db'');
           dbPath = outputDir @ ''/../databases/'' @ dbFileName
       in if \<not> fileExists E dbPath then (Inl (DatabaseFileMissing dbPath), w)
          else (let r = nextDao w;
                    w0 = w\<lparr>nextDao := Suc r,
                           daos := (daos w)(r := \<lparr>dbName = dbFileName, db = False,
                                                   isOpen = False, inTransaction = False\<rparr>)\<rparr>;
                    (res, w1) =
                      (case connect E r w0 of
                         (Inl e, w') \<Rightarrow> (Inl e, w')
                       | (Inr _, w') \<Rightarrow>
                           (case runSql E r ''PRAGMA integrity_check'' [] w' of
                              (Inl e, w'') \<Rightarrow> (Inl e, w'')
                            | (Inr _, w'') \<Rightarrow> (Inr r, w'')))
                in case res of
                     Inr d \<Rightarrow> (Inr d, w1)
                   | Inl e \<Rightarrow>
                       (case daoClose E r w1 of
                          (Inl e', w2) \<Rightarrow> (Inl e', w2)
                        | (Inr _, w2) \<Rightarrow> (Inl e, w2)))))"

section \<open>DatabaseManager\<close>

text \<open>
  One round of the loop over role names in \<^verbatim>\<open>getCurrentUserDatabases\<close>.  A name that
  is not registered but names an inherited member gives a truthy \<^verbatim>\<open>roleConfig\<close>
  without \<^verbatim>\<open>requiredDatabases\<close>, and \<^verbatim>\<open>roleConfig.requiredDatabases.forEach\<close> throws.
\<close>

definition addRoleDatabases ::
  "(string \<rightharpoonup> RoleConfig) \<Rightarrow> string list \<Rightarrow> string \<Rightarrow> error + string list" where
  "addRoleDatabases registry acc role =
     (case getProperty registry role of
        None \<Rightarrow> Inr acc
      | Some (Inherited p) \<Rightarrow> Inl (TypeError ''roleConfig.requiredDatabases.forEach'')
      | Some (Value roleConfig) \<Rightarrow>
          Inr (foldl setAdd (foldl setAdd acc (requiredDatabases roleConfig))
                 (case optionalDatabases roleConfig of None \<Rightarrow> [] | Some os \<Rightarrow> os)))"

fun addRolesDatabases ::
  "(string \<rightharpoonup> RoleConfig) \<Rightarrow> string list \<Rightarrow> string list \<Rightarrow> error + string list" where
  "addRolesDatabases registry acc [] = Inr acc"
| "addRolesDatabases registry acc (role # roles) =
     (case addRoleDatabases registry acc role of
        Inl e \<Rightarrow> Inl e
      | Inr acc' \<Rightarrow> addRolesDatabases registry acc' roles)"

text \<open>The set built by \<^verbatim>\<open>getCurrentUserDatabases\<close>, and once more with the previous
  roles by \<^verbatim>\<open>cleanupUnusedConnections\<close>: \<^verbatim>\<open>'core'\<close> first, then the databases of each
  role that is registered.\<close>

definition databasesOfRoles ::
  "(string \<rightharpoonup> RoleConfig) \<Rightarrow> string list \<Rightarrow> error + string list" where
  "databasesOfRoles registry roles = addRolesDatabases registry [''core''] roles"

definition getCurrentUserDatabases :: "world \<Rightarrow> error + string list" where
  "getCurrentUserDatabases w = databasesOfRoles (roleRegistry w) (currentUserRoles w)"

definition hasAccessToDatabase :: "world \<Rightarrow> string \<Rightarrow> error + bool" where
  "hasAccessToDatabase w dbKey =
     (case getCurrentUserDatabases w of
        Inl e \<Rightarrow> Inl e
      | Inr allowedDatabases \<Rightarrow> Inr (dbKey \<in> set allowedDatabases))"

text \<open>\<^verbatim>\<open>get\<close> assigns nothing; the world is returned so that this can be stated.\<close>

definition get :: "string \<Rightarrow> world \<Rightarrow> (error + handle) \<times> world" where
  "get key w =
     (case hasAccessToDatabase w key of
        Inl e \<Rightarrow> (Inl e, w)
      | Inr allowed \<Rightarrow>
          if \<not> allowed then (Inl (AccessDenied key (currentUserRoles w)), w)
          else (case connection w key of
                  None \<Rightarrow> (Inl (NotConnected key), w)
                | Some d \<Rightarrow> (Inr d, w)))"

text \<open>\<^verbatim>\<open>currentUserRoles.some(...)\<close> in the \<^verbatim>\<open>catch\<close> block of an initialization: it
  stops at the first role that requires the key.\<close>

fun requiredByRoles :: "(string \<rightharpoonup> RoleConfig) \<Rightarrow> string \<Rightarrow> string list \<Rightarrow> error + bool" where
  "requiredByRoles registry dbKey [] = Inr False"
| "requiredByRoles registry dbKey (role # roles) =
     (case getProperty registry role of
        None \<Rightarrow> requiredByRoles registry dbKey roles
      | Some (Inherited p) \<Rightarrow> Inl (TypeError ''roleConfig.requiredDatabases.includes'')
      | Some (Value roleConfig) \<Rightarrow>
          if dbKey \<in> set (requiredDatabases roleConfig) then Inr True
          else requiredByRoles registry dbKey roles)"

definition isRequired :: "world \<Rightarrow> string \<Rightarrow> error + bool" where
  "isRequired w dbKey = requiredByRoles (roleRegistry w) dbKey (currentUserRoles w)"

text \<open>One element of \<^verbatim>\<open>initPromises\<close>: its rejection, or the failures it adds to
  \<^verbatim>\<open>failedInitializations\<close>; and the world it leaves.\<close>

definition initDatabase ::
  "env \<Rightarrow> string \<Rightarrow> world \<Rightarrow> (error + (string \<times> string) list) \<times> world" where
  "initDatabase E dbKey w =
     (if connection w dbKey \<noteq> None then (Inr [], w)
      else (let (res, w') =
                  (if \<not> schemaConfigurations E dbKey then (Inl (SchemaKeyNotFound dbKey), w)
                   else (case openExisting E dbKey w of
                           (Inl e, w1) \<Rightarrow> (Inl e, w1)
                         | (Inr d, w1) \<Rightarrow>
                             (case runSql E d ''PRAGMA integrity_check'' [] w1 of
                                (Inl e, w2) \<Rightarrow> (Inl e, w2)
                              | (Inr _, w2) \<Rightarrow>
                                  (Inr (), w2\<lparr>connections := AList.update dbKey d (connections w2)\<rparr>))))
            in case res of
                 Inr _ \<Rightarrow> (Inr [], w')
               | Inl err \<Rightarrow>
                   (case isRequired w' dbKey of
                      Inl e \<Rightarrow> (Inl e, w')
                    | Inr required \<Rightarrow>
                        (Inr (if required then [(dbKey, message err)] else []), w'))))"

text \<open>
  \<^verbatim>\<open>Promise.all\<close> over the keys: every element is started and runs whatever the
  others do.  Here the elements run one after the other in list order, which is the
  schedule where the file-system check of each element resolves once the element
  before it has finished; the keys are distinct, so no element reads an entry of the
  connection map that another writes.  The barrier rejects with the first rejection
  in that order, and otherwise leaves the collected failures.
\<close>

fun initDatabases ::
  "env \<Rightarrow> string list \<Rightarrow> world \<Rightarrow> (error + (string \<times> string) list) \<times> world" where
  "initDatabases E [] w = (Inr [], w)"
| "initDatabases E (k # ks) w =
     (case initDatabase E k w of
        (r1, w1) \<Rightarrow>
          (case initDatabases E ks w1 of
             (r2, w2) \<Rightarrow>
               ((case r1 of
                   Inl e \<Rightarrow> Inl e
                 | Inr f1 \<Rightarrow> (case r2 of Inl e \<Rightarrow> Inl e | Inr f2 \<Rightarrow> Inr (f1 @ f2))), w2)))"

definition initializeUserRoleConnections :: "env \<Rightarrow> world \<Rightarrow> (error + unit) \<times> world" where
  "initializeUserRoleConnections E w =
     (case getCurrentUserDatabases w of
        Inl e \<Rightarrow> (Inl e, w)
      | Inr dbKeys \<Rightarrow>
          (case initDatabases E dbKeys w of
             (Inl e, w') \<Rightarrow> (Inl e, w')
           | (Inr failedInitializations, w') \<Rightarrow>
               if length failedInitializations > 0
               then (Inl (RequiredInitFailed failedInitializations), w')
               else (Inr (), w')))"

text \<open>The loop of \<^verbatim>\<open>cleanupUnusedConnections\<close>: a failing close is logged and the
  entry stays in the map; so does an inherited member, on which \<^verbatim>\<open>close\<close> is not a
  function.\<close>

fun closeDatabases :: "env \<Rightarrow> string list \<Rightarrow> world \<Rightarrow> world" where
  "closeDatabases E [] w = w"
| "closeDatabases E (dbKey # ks) w =
     (case connection w dbKey of
        None \<Rightarrow> closeDatabases E ks w
      | Some (Inherited p) \<Rightarrow> closeDatabases E ks w
      | Some (Value d) \<Rightarrow>
          (case daoClose E d w of
             (Inl e, w1) \<Rightarrow> closeDatabases E ks w1
           | (Inr _, w1) \<Rightarrow>
               closeDatabases E ks (w1\<lparr>connections := AList.delete dbKey (connections w1)\<rparr>)))"

definition cleanupUnusedConnections ::
  "env \<Rightarrow> string list \<Rightarrow> world \<Rightarrow> (error + unit) \<times> world" where
  "cleanupUnusedConnections E previousRoles w =
     (case databasesOfRoles (roleRegistry w) previousRoles of
        Inl e \<Rightarrow> (Inl e, w)
      | Inr previousDatabases \<Rightarrow>
          (case getCurrentUserDatabases w of
             Inl e \<Rightarrow> (Inl e, w)
           | Inr currentDatabases \<Rightarrow>
               (let databasesToClose =
                      filter (\<lambda>db. db \<notin> set currentDatabases) previousDatabases
                in (Inr (), closeDatabases E databasesToClose w))))"

text \<open>\<^verbatim>\<open>primaryRole || userRoles[0] || null\<close>: an empty string is falsy.\<close>

definition pickRole :: "string option \<Rightarrow> string list \<Rightarrow> string option" where
  "pickRole primaryRole userRoles =
     (let first = (case userRoles of [] \<Rightarrow> None | r # _ \<Rightarrow> if r = [] then None else Some r)
      in case primaryRole of
           None \<Rightarrow> first
         | Some p \<Rightarrow> if p = [] then first else Some p)"

definition setCurrentUserRoles ::
  "env \<Rightarrow> string list \<Rightarrow> string option \<Rightarrow> world \<Rightarrow> (error + unit) \<times> world" where
  "setCurrentUserRoles E userRoles primaryRole w =
     (case find (\<lambda>r. getProperty (roleRegistry w) r = None) userRoles of
        Some r \<Rightarrow> (Inl (RoleNotRegistered r), w)
      | None \<Rightarrow>
          (let previousRoles = currentUserRoles w;
               w1 = w\<lparr>currentUserRoles := userRoles,
                      currentRole := pickRole primaryRole userRoles\<rparr>
           in case initializeUserRoleConnections E w1 of
                (Inl e, w2) \<Rightarrow> (Inl e, w2)
              | (Inr _, w2) \<Rightarrow> cleanupUnusedConnections E previousRoles w2))"

definition maxConnections :: nat where
  "maxConnections = 5"

text \<open>\<^verbatim>\<open>getLazyLoading\<close> returns \<^verbatim>\<open>this.connections[key]\<close>, which after a successful
  open is the DAO just stored.  \<^verbatim>\<open>Object.keys\<close> counts the own properties.\<close>

definition getLazyLoading :: "env \<Rightarrow> string \<Rightarrow> world \<Rightarrow> (error + handle) \<times> world" where
  "getLazyLoading E key w =
     (case hasAccessToDatabase w key of
        Inl e \<Rightarrow> (Inl e, w)
      | Inr allowed \<Rightarrow>
          if \<not> allowed then (Inl (AccessDenied key (currentUserRoles w)), w)
          else (let (res, w') =
                      (case connection w key of
                         Some h \<Rightarrow> (Inr h, w)
                       | None \<Rightarrow>
                           if \<not> schemaConfigurations E key then (Inl (InvalidDatabaseKey key), w)
                           else if length (remdups (map fst (connections w))) \<ge> maxConnections
                           then (Inl MaxConnectionsReached, w)
                           else (case openExisting E key w of
                                   (Inl e, w1) \<Rightarrow> (Inl e, w1)
                                 | (Inr d, w1) \<Rightarrow>
                                     (case runSql E d ''PRAGMA integrity_check'' [] w1 of
                                        (Inl e, w2) \<Rightarrow> (Inl e, w2)
                                      | (Inr _, w2) \<Rightarrow>
                                          (Inr (Value d),
                                           w2\<lparr>connections := AList.update key d (connections w2)\<rparr>))))
                in case res of
                     Inl e \<Rightarrow> (Inl e, w')
                   | Inr h \<Rightarrow> (Inr h, w'\<lparr>appStateListener := True, mgrInitialized := True\<rparr>)))"

text \<open>
  \<^verbatim>\<open>Promise.all(handles.map(dao => dao.method()))\<close>.  The \<^verbatim>\<open>map\<close> calls the method on
  each handle in turn; on an inherited member the method is not a function, and the
  \<^verbatim>\<open>map\<close> throws before it reaches the handles after it.  The calls that were made
  run to completion in list order, and the barrier rejects with the first rejection
  in that order.  \<open>callAll\<close> returns what the \<^verbatim>\<open>map\<close> threw and the first rejection.
  With one handle this is the only schedule there is.
\<close>

fun callAll ::
  "(ref \<Rightarrow> world \<Rightarrow> (error + unit) \<times> world) \<Rightarrow> string \<Rightarrow> handle list \<Rightarrow> world
     \<Rightarrow> (error option \<times> error option) \<times> world" where
  "callAll f method [] w = ((None, None), w)"
| "callAll f method (Inherited p # hs) w = ((Some (TypeError (''dao.'' @ method)), None), w)"
| "callAll f method (Value r # hs) w =
     (case f r w of
        (res, w1) \<Rightarrow>
          (case callAll f method hs w1 of
             ((thrown, rejected), w2) \<Rightarrow>
               ((thrown, (case res of Inl e \<Rightarrow> Some e | Inr _ \<Rightarrow> rejected)), w2)))"

definition promiseAll ::
  "(ref \<Rightarrow> world \<Rightarrow> (error + unit) \<times> world) \<Rightarrow> string \<Rightarrow> handle list \<Rightarrow> world
     \<Rightarrow> (error + unit) \<times> world" where
  "promiseAll f method hs w =
     (case callAll f method hs w of
        ((Some e, rejected), w') \<Rightarrow> (Inl e, w')
      | ((None, Some e), w') \<Rightarrow> (Inl e, w')
      | ((None, None), w') \<Rightarrow> (Inr (), w'))"

text \<open>The loop that checks access to every schema.\<close>

fun checkAccess :: "world \<Rightarrow> string list \<Rightarrow> error option" where
  "checkAccess w [] = None"
| "checkAccess w (key # ks) =
     (case hasAccessToDatabase w key of
        Inl e \<Rightarrow> Some e
      | Inr allowed \<Rightarrow>
          if \<not> allowed then Some (AccessDenied key (currentUserRoles w))
          else checkAccess w ks)"

text \<open>
  The \<^verbatim>\<open>reduce\<close> that collects the handles: \<^verbatim>\<open>get\<close> for each key, assigned into
  an object (an assignment to \<^verbatim>\<open>__proto__\<close> creates no property).  \<^verbatim>\<open>Object.values\<close>
  lists them in insertion order, keys that are array indices first; that order is kept
  as insertion order here.
\<close>

fun collectDaos ::
  "string list \<Rightarrow> (string \<times> handle) list \<Rightarrow> world
     \<Rightarrow> (error + (string \<times> handle) list) \<times> world" where
  "collectDaos [] acc w = (Inr acc, w)"
| "collectDaos (key # ks) acc w =
     (case get key w of
        (Inl e, w1) \<Rightarrow> (Inl e, w1)
      | (Inr d, w1) \<Rightarrow>
          collectDaos ks (if key = ''__proto__'' then acc else AList.update key d acc) w1)"

definition executeCrossSchemaTransaction ::
  "env \<Rightarrow> string list \<Rightarrow> ((string \<times> handle) list \<Rightarrow> world \<Rightarrow> (error + unit) \<times> world)
     \<Rightarrow> world \<Rightarrow> (error + unit) \<times> world" where
  "executeCrossSchemaTransaction E schemas callback w =
     (case checkAccess w schemas of
        Some e \<Rightarrow> (Inl e, w)
      | None \<Rightarrow>
          (case collectDaos schemas [] w of
             (Inl e, w0) \<Rightarrow> (Inl e, w0)
           | (Inr handles, w0) \<Rightarrow>
               (let (res, w3) =
                      (case promiseAll (beginTransaction E) ''beginTransaction''
                              (map snd handles) w0 of
                         (Inl e, w1) \<Rightarrow> (Inl e, w1)
                       | (Inr _, w1) \<Rightarrow>
                           (case callback handles w1 of
                              (Inl e, w2) \<Rightarrow> (Inl e, w2)
                            | (Inr _, w2) \<Rightarrow>
                                promiseAll (commitTransaction E) ''commitTransaction''
                                  (map snd handles) w2))
                in case res of
                     Inr _ \<Rightarrow> (Inr (), w3)
                   | Inl err \<Rightarrow>
                       (case promiseAll (rollbackTransaction E) ''rollbackTransaction''
                               (map snd handles) w3 of
                          (Inl e', w4) \<Rightarrow> (Inl e', w4)
                        | (Inr _, w4) \<Rightarrow> (Inl err, w4)))))"

section \<open>BaseService\<close>

definition svc_emit :: "ref \<Rightarrow> string \<Rightarrow> world \<Rightarrow> world" where
  "svc_emit s ev w =
     (if ev \<in> set (eventListeners (svcs w s)) then w\<lparr>notified := notified w @ [(s, ev)]\<rparr> else w)"

definition svc_handleError :: "ref \<Rightarrow> string \<Rightarrow> world \<Rightarrow> world" where
  "svc_handleError s errorType w =
     svc_emit s ''error''
       (if errorType \<in> set (errorHandlers (svcs w s))
        then w\<lparr>notified := notified w @ [(s, errorType)]\<rparr> else w)"

definition serviceInit :: "env \<Rightarrow> ref \<Rightarrow> world \<Rightarrow> (error + unit) \<times> world" where
  "serviceInit E s w =
     (if isInitialized (svcs w s) then (Inr (), w)
      else (case getLazyLoading E (schemaName (svcs w s)) w of
              (Inl e, w1) \<Rightarrow> (Inl e, svc_handleError s ''INIT_ERROR'' w1)
            | (Inr d, w1) \<Rightarrow>
                (Inr (), svc_emit s ''initialized''
                           (updSvc s (\<lambda>v. v\<lparr>dao := Some d, isOpened := True,
                                              isInitialized := True\<rparr>) w1))))"

definition serviceClose :: "env \<Rightarrow> ref \<Rightarrow> world \<Rightarrow> (error + bool) \<times> world" where
  "serviceClose E s w =
     (case (case dao (svcs w s) of
              None \<Rightarrow> (Inr (), w)
            | Some (Inherited p) \<Rightarrow> (Inl (TypeError ''this.dao.close''), w)
            | Some (Value d) \<Rightarrow> daoClose E d w) of
        (Inl e, w1) \<Rightarrow> (Inl e, svc_handleError s ''CLOSE_ERROR'' w1)
      | (Inr _, w1) \<Rightarrow>
          (Inr True, svc_emit s ''closed''
                       (updSvc s (\<lambda>v. v\<lparr>isOpened := False, isInitialized := False,
                                          eventListeners := [], errorHandlers := []\<rparr>) w1)))"



section \<open>ServiceManager\<close>

definition createServiceKey :: "string \<Rightarrow> string \<Rightarrow> string" where
  "createServiceKey schema table = schema @ '':'' @ table"

definition sm_emit :: "string \<Rightarrow> string \<Rightarrow> world \<Rightarrow> world" where
  "sm_emit ty serviceKey w = w\<lparr>smEmitted := smEmitted w @ [(ty, serviceKey)]\<rparr>"

text \<open>\<^verbatim>\<open>new ServiceClass(schemaName, tableName)\<close>: a fresh object in the store.\<close>

definition newService :: "string \<Rightarrow> string \<Rightarrow> string \<Rightarrow> world \<Rightarrow> ref \<times> world" where
  "newService cls schema table w =
     (nextSvc w,
      w\<lparr>nextSvc := Suc (nextSvc w),
        svcs := (svcs w)(nextSvc w :=
                  \<lparr>svcClass = cls, schemaName = schema,
                   tableName = (if table = [] then schema else table), dao = None,
                   isOpened = False, isInitialized = False, primaryKeyFields = [''id''],
                   eventListeners = [], errorHandlers = []\<rparr>)\<rparr>)"

definition createService :: "env \<Rightarrow> string \<Rightarrow> string \<Rightarrow> world \<Rightarrow> (error + ref) \<times> world" where
  "createService E schema table w =
     (let serviceKey = createServiceKey schema table
      in case map_of (services w) serviceKey of
           Some s \<Rightarrow> (Inr s, w)
         | None \<Rightarrow>
             (let config =
                    (case serviceConfigs w serviceKey of
                       Some c \<Rightarrow> c
                     | None \<Rightarrow> \<lparr>sc_schemaName = schema, sc_tableName = table,
                                 sc_primaryKeyFields = Some [''id''], autoInit = Some False,
                                 serviceClass = Some ''BaseService''\<rparr>);
                  cls = (case serviceClass config of None \<Rightarrow> ''BaseService'' | Some c \<Rightarrow> c);
                  (s, w1) = newService cls schema table w;
                  w2 = (case sc_primaryKeyFields config of
                          None \<Rightarrow> w1
                        | Some pk \<Rightarrow> updSvc s (\<lambda>v. v\<lparr>primaryKeyFields := pk\<rparr>) w1);
                  w3 = w2\<lparr>services := AList.update serviceKey s (services w2)\<rparr>
              in if autoInit config = Some True
                 then (case serviceInit E s w3 of
                         (Inl e, w4) \<Rightarrow> (Inl e, sm_emit ''SERVICE_ERROR'' serviceKey w4)
                       | (Inr _, w4) \<Rightarrow> (Inr s, sm_emit ''SERVICE_CREATED'' serviceKey w4))
                 else (Inr s, sm_emit ''SERVICE_CREATED'' serviceKey w3)))"

definition getService :: "env \<Rightarrow> string \<Rightarrow> string \<Rightarrow> world \<Rightarrow> (error + ref) \<times> world" where
  "getService E schema table w =
     (case map_of (services w) (createServiceKey schema table) of
        Some s \<Rightarrow> (Inr s, w)
      | None \<Rightarrow> createService E schema table w)"

section \<open>Reference descriptions used in the statements\<close>

text \<open>The token that follows the first occurrence of a keyword, if there is one.\<close>

definition tokenAfter :: "string \<Rightarrow> string list \<Rightarrow> string option" where
  "tokenAfter k cs = (case dropWhile (\<lambda>t. t \<noteq> k) cs of _ # t # _ \<Rightarrow> Some t | _ \<Rightarrow> None)"

text \<open>
  The DDL fragments the specification lists for a token list, in the order the scanner
  emits them; \<open>pk\<close> says whether the column counts as a primary key.
\<close>

definition fragments :: "bool \<Rightarrow> string list \<Rightarrow> string list" where
  "fragments pk cs =
     (if ''PRIMARY'' \<in> set cs then [''PRIMARY KEY''] else [])
     @ (if (''AUTO_INCREMENT'' \<in> set cs \<or> ''AUTOINCREMENT'' \<in> set cs) \<and> pk
        then [''AUTOINCREMENT''] else [])
     @ (if ''NOT'' \<in> set cs \<and> ''NULL'' \<in> set cs then [''NOT NULL''] else [])
     @ (if ''UNIQUE'' \<in> set cs \<and> \<not> pk then [''UNIQUE''] else [])
     @ (case tokenAfter ''DEFAULT'' cs of Some t \<Rightarrow> [''DEFAULT '' @ t] | None \<Rightarrow> [])"

text \<open>
  The statements of the declarative builder in the words of the specification, as
  functions of the names alone: every condition and every assignment is a name with
  one positional placeholder, conditions are combined with \<^verbatim>\<open>AND\<close>, and a select
  without explicit columns uses \<^verbatim>\<open>*\<close>.  \<open>plainSelect\<close> is the select statement
  with no \<^verbatim>\<open>LIMIT\<close> and no \<^verbatim>\<open>OFFSET\<close> clause.
\<close>

definition conditionText :: "string list \<Rightarrow> string" where
  "conditionText names =
     (if names = [] then []
      else '' WHERE '' @ join '' AND '' (map (\<lambda>n. n @ '' = ?'') names))"

definition orderByText :: "OrderByClause list \<Rightarrow> string" where
  "orderByText obs =
     (if obs = [] then []
      else '' ORDER BY ''
             @ join '', '' (map (\<lambda>ob. ob_name ob @ (if ob_direction ob = Some DESC
                                                        then '' DESC'' else '' ASC'')) obs))"

definition plainSelect ::
  "string \<Rightarrow> string list \<Rightarrow> string list \<Rightarrow> OrderByClause list \<Rightarrow> string" where
  "plainSelect table columnNames whereNames obs =
     ''SELECT '' @ (if columnNames = [] then ''*'' else join '', '' columnNames)
       @ '' FROM '' @ table @ conditionText whereNames @ orderByText obs"

definition insertText :: "string \<Rightarrow> string list \<Rightarrow> string" where
  "insertText table names =
     ''INSERT INTO '' @ table @ '' ('' @ join '', '' names @ '') VALUES (''
       @ join '', '' (replicate (length names) ''?'') @ '')''"

definition updateText :: "string \<Rightarrow> string list \<Rightarrow> string list \<Rightarrow> string" where
  "updateText table setNames whereNames =
     ''UPDATE '' @ table @ '' SET '' @ join '', '' (map (\<lambda>n. n @ '' = ?'') setNames)
       @ conditionText whereNames"

definition deleteText :: "string \<Rightarrow> string list \<Rightarrow> string" where
  "deleteText table whereNames = ''DELETE FROM '' @ table @ conditionText whereNames"

text \<open>The WHERE list and the ORDER BY list of a descriptor, empty when absent; the
  columns \<^verbatim>\<open>insert\<close> keeps (a defined, non-null value) and those \<^verbatim>\<open>update\<close> sets (a
  defined value and a name outside the WHERE list).\<close>

definition whereList :: "QueryTable \<Rightarrow> WhereClause list" where
  "whereList t = (case wheres t of None \<Rightarrow> [] | Some wl \<Rightarrow> wl)"

definition orderList :: "QueryTable \<Rightarrow> OrderByClause list" where
  "orderList t = (case orderbys t of None \<Rightarrow> [] | Some obs \<Rightarrow> obs)"

definition insertedColumns :: "QueryTable \<Rightarrow> Column list" where
  "insertedColumns t =
     filter (\<lambda>c. col_value c \<noteq> JUndefined \<and> col_value c \<noteq> JNull) (cols t)"

definition assignedColumns :: "QueryTable \<Rightarrow> Column list" where
  "assignedColumns t =
     filter (\<lambda>c. col_value c \<noteq> JUndefined \<and> col_name c \<notin> w_name ` set (whereList t)) (cols t)"

text \<open>The value bound for a column that is kept: the JSON text of an object, and the
  text \<^verbatim>\<open>null\<close> for a null (which \<^verbatim>\<open>update\<close> keeps); any other value as it is.\<close>

fun boundValue :: "jsval \<Rightarrow> jsval" where
  "boundValue (JObj j) = JStr j"
| "boundValue JNull = JStr ''null''"
| "boundValue JUndefined = JUndefined"
| "boundValue (JBool b) = JBool b"
| "boundValue (JNum n) = JNum n"
| "boundValue (JStr s) = JStr s"

text \<open>The clauses after the ORDER BY list: a \<^verbatim>\<open>LIMIT\<close> clause for a limit that is present
  and not 0, then an \<^verbatim>\<open>OFFSET\<close> clause for an offset that is present and not 0.\<close>

definition limitOffsetText :: "(int \<Rightarrow> string) \<Rightarrow> LimitOffset option \<Rightarrow> string" where
  "limitOffsetText numText lo =
     (case lo of
        None \<Rightarrow> []
      | Some l \<Rightarrow>
          (case limit l of
             None \<Rightarrow> []
           | Some n \<Rightarrow> if n = 0 then [] else '' LIMIT '' @ numText n)
          @ (case offset l of
               None \<Rightarrow> []
             | Some k \<Rightarrow> if k = 0 then [] else '' OFFSET '' @ numText k))"

text \<open>The select statement of a descriptor without \<^verbatim>\<open>LIMIT\<close> and \<^verbatim>\<open>OFFSET\<close> clause.\<close>

definition unlimitedSelect :: "QueryTable \<Rightarrow> string" where
  "unlimitedSelect t =
     plainSelect (qt_name t) (map col_name (cols t)) (map w_name (whereList t)) (orderList t)"

text \<open>The wanted set in the words of the specification: the default key, and the required
  and optional keys of every active role.\<close>

definition wantedSet :: "world \<Rightarrow> string set" where
  "wantedSet w =
     insert ''core''
       (\<Union>role \<in> set (currentUserRoles w).
          case roleRegistry w role of
            None \<Rightarrow> {}
          | Some rc \<Rightarrow> set (requiredDatabases rc)
                       \<union> (case optionalDatabases rc of None \<Rightarrow> {} | Some os \<Rightarrow> set os))"

text \<open>The handle a native call is made on.\<close>

fun eventRef :: "event \<Rightarrow> ref" where
  "eventRef (NativeOpen r) = r"
| "eventRef (NativeExec r sql ps ok) = r"
| "eventRef (NativeClose r) = r"

text \<open>
  Well-formed connection maps: no handle is cached under two keys, and every cached
  handle has been allocated.  The empty map is well formed, and role switches keep
  the map well formed (shown below).
\<close>

definition wfConnections :: "world \<Rightarrow> bool" where
  "wfConnections w =
     (distinct (map snd (connections w))
      \<and> list_all (\<lambda>r. r < nextDao w) (map snd (connections w)))"

text \<open>
  Three frames for the two phases of a role switch.  A step that \<open>touchesFrom n\<close> only
  makes native calls on, and only changes, handles from \<open>n\<close> upwards, and leaves the
  connection map and the roles alone.  A step that \<open>opensOnly n K\<close> may in addition
  register new keys of \<open>K\<close>, keeping every entry the map had.  A step that
  \<open>closesOnly K\<close> makes no native call but closes of handles the map holds for keys of
  \<open>K\<close>, may drop such entries, and changes no other handle.
\<close>

definition touchesFrom :: "ref \<Rightarrow> world \<Rightarrow> world \<Rightarrow> bool" where
  "touchesFrom n w w' =
     (nextDao w \<le> nextDao w'
      \<and> (\<exists>tr. trace w' = trace w @ tr \<and> list_all (\<lambda>e. n \<le> eventRef e) tr)
      \<and> (\<forall>r<n. daos w' r = daos w r)
      \<and> connections w' = connections w
      \<and> roleRegistry w' = roleRegistry w
      \<and> currentUserRoles w' = currentUserRoles w)"

definition opensOnly :: "ref \<Rightarrow> string set \<Rightarrow> world \<Rightarrow> world \<Rightarrow> bool" where
  "opensOnly n K w w' =
     (nextDao w \<le> nextDao w'
      \<and> (\<exists>tr. trace w' = trace w @ tr \<and> list_all (\<lambda>e. n \<le> eventRef e) tr)
      \<and> (\<forall>r<n. daos w' r = daos w r)
      \<and> roleRegistry w' = roleRegistry w
      \<and> currentUserRoles w' = currentUserRoles w
      \<and> (\<forall>k r. map_of (connections w) k = Some r \<longrightarrow> map_of (connections w') k = Some r)
      \<and> (\<forall>k. k \<notin> K \<longrightarrow> map_of (connections w') k = map_of (connections w) k))"

definition closesOnly :: "string set \<Rightarrow> world \<Rightarrow> world \<Rightarrow> bool" where
  "closesOnly K w w' =
     ((\<exists>tr. trace w' = trace w @ tr
         \<and> (\<forall>e\<in>set tr. \<exists>k\<in>K. \<exists>r. e = NativeClose r \<and> map_of (connections w) k = Some r))
      \<and> (\<forall>k. k \<notin> K \<longrightarrow> map_of (connections w') k = map_of (connections w) k)
      \<and> (\<forall>k r. map_of (connections w') k = Some r \<longrightarrow> map_of (connections w) k = Some r)
      \<and> (\<forall>r. (\<forall>k\<in>K. map_of (connections w) k \<noteq> Some r) \<longrightarrow> daos w' r = daos w r)
      \<and> roleRegistry w' = roleRegistry w
      \<and> currentUserRoles w' = currentUserRoles w)"

section \<open>Example inputs\<close>

text \<open>An environment in which every native call resolves, every file exists, queries
  return no rows, and the schema registry is a plain object with the keys
  \<^verbatim>\<open>core\<close> and \<^verbatim>\<open>analytics\<close>.\<close>

definition exampleEnv :: env where
  "exampleEnv =
     \<lparr>openDatabase = (\<lambda>f. None), executeSql = (\<lambda>f sql ps. Inr []),
      closeDatabase = (\<lambda>f. None), documentDirectoryPath = ''/data/files'',
      ensureDirectory = (\<lambda>d. None), fileExists = (\<lambda>f. True),
      schemaConfigurations =
        (\<lambda>k. k = ''core'' \<or> k = ''analytics'' \<or> k \<in> set objectPrototypeMembers),
      numberToString = showInt\<rparr>"

definition blankDao :: SQLiteDAO where
  "blankDao = \<lparr>dbName = [], db = False, isOpen = False, inTransaction = False\<rparr>"

definition blankService :: BaseService where
  "blankService =
     \<lparr>svcClass = [], schemaName = [], tableName = [], dao = None, isOpened = False,
      isInitialized = False, primaryKeyFields = [], eventListeners = [], errorHandlers = []\<rparr>"

definition emptyWorld :: world where
  "emptyWorld =
     \<lparr>daos = (\<lambda>r. blankDao), nextDao = 0, svcs = (\<lambda>s. blankService), nextSvc = 0,
      trace = [], notified = [], connections = [], roleRegistry = Map.empty,
      currentUserRoles = [], currentRole = None, mgrInitialized = False,
      appStateListener = False, services = [], serviceConfigs = Map.empty, smEmitted = []\<rparr>"

text \<open>The core database open under handle 0, with and without a transaction.\<close>

definition coreWorld :: world where
  "coreWorld =
     emptyWorld\<lparr>daos := (\<lambda>r. blankDao)(0 := \<lparr>dbName = ''core.db'', db = True, isOpen = True,
                                               inTransaction = False\<rparr>),
                nextDao := 1, connections := [(''core'', 0)]\<rparr>"

definition coreWorldTx :: world where
  "coreWorldTx =
     coreWorld\<lparr>daos := (\<lambda>r. blankDao)(0 := \<lparr>dbName = ''core.db'', db = True, isOpen = True,
                                              inTransaction = True\<rparr>),
               trace := [NativeExec 0 ''BEGIN TRANSACTION'' [] True]\<rparr>"

definition exampleTable :: "jsval \<Rightarrow> jsval \<Rightarrow> QueryTable" where
  "exampleTable v k =
     \<lparr>qt_name = ''users'',
      cols = [\<lparr>col_name = ''name'', col_value = v\<rparr>],
      wheres = Some [\<lparr>w_name = ''id'', w_value = k, w_operator = None\<rparr>],
      orderbys = None, limitOffset = None\<rparr>"

text \<open>Worlds for the manager: a role \<^verbatim>\<open>staff\<close> that requires \<^verbatim>\<open>core\<close> and
  \<^verbatim>\<open>analytics\<close>; a connection to \<^verbatim>\<open>analytics\<close> still cached while no role is active;
  an engine on which \<^verbatim>\<open>ROLLBACK\<close> fails; a live, initialized service on \<^verbatim>\<open>core\<close>.\<close>

definition staffRole :: RoleConfig where
  "staffRole = \<lparr>roleName = ''staff'', requiredDatabases = [''core'', ''analytics''],
                optionalDatabases = None, priority = None\<rparr>"



definition failingRollbackEnv :: env where
  "failingRollbackEnv =
     exampleEnv\<lparr>executeSql :=
       (\<lambda>f sql ps. if sql = ''ROLLBACK'' then Inl (Native ''disk I/O error'') else Inr [])\<rparr>"

definition failingCallback :: "(string \<times> handle) list \<Rightarrow> world \<Rightarrow> (error + unit) \<times> world" where
  "failingCallback handles w = (Inl (Thrown ''callback failed''), w)"

definition serviceWorld :: world where
  "serviceWorld =
     coreWorld\<lparr>svcs := (\<lambda>s. blankService)
                  (0 := \<lparr>svcClass = ''BaseService'', schemaName = ''core'', tableName = ''users'',
                         dao = Some (Value 0), isOpened = True, isInitialized = True,
                         primaryKeyFields = [''id''], eventListeners = [], errorHandlers = []\<rparr>),
               nextSvc := 1, services := [(''core:users'', 0)],
               mgrInitialized := True, appStateListener := True\<rparr>"

text \<open>A second role, whose optional database is open while it is active.\<close>

definition guestRole :: RoleConfig where
  "guestRole = \<lparr>roleName = ''guest'', requiredDatabases = [''core''],
                optionalDatabases = Some [''reports''], priority = None\<rparr>"

definition guestWorld :: world where
  "guestWorld =
     emptyWorld\<lparr>daos := (\<lambda>r. blankDao)
                  (0 := \<lparr>dbName = ''core.db'', db = True, isOpen = True, inTransaction = False\<rparr>,
                   1 := \<lparr>dbName = ''reports.db'', db = True, isOpen = True, inTransaction = False\<rparr>),
                nextDao := 2, connections := [(''core'', 0), (''reports'', 1)],
                roleRegistry := [''staff'' \<mapsto> staffRole, ''guest'' \<mapsto> guestRole],
                currentUserRoles := [''guest''], currentRole := Some ''guest''\<rparr>"








section \<open>The declarative query builder\<close>

lemma where_text:
  "fst (buildWhereClause ws ''WHERE'')
     = conditionText (map w_name (case ws of None \<Rightarrow> [] | Some wl \<Rightarrow> wl))"
  by (cases ws) (simp_all add: buildWhereClause_def conditionText_def comp_def)

lemma where_params:
  "snd (buildWhereClause ws c) = map w_value (case ws of None \<Rightarrow> [] | Some wl \<Rightarrow> wl)"
  by (cases ws) (auto simp: buildWhereClause_def)

lemma order_term:
  "orderText = (\<lambda>ob. ob_name ob @ (if ob_direction ob = Some DESC then '' DESC'' else '' ASC''))"
  by (rule ext) (simp add: orderText_def split: option.split direction.split)

lemma order_text:
  "(case obs of None \<Rightarrow> s | Some l \<Rightarrow> if length l = 0 then s else s @ '' ORDER BY '' @ join '', '' (map orderText l))
     = s @ orderByText (case obs of None \<Rightarrow> [] | Some l \<Rightarrow> l)"
  by (cases obs) (simp_all add: orderByText_def order_term)

lemma select_columns:
  "(if length cs > 0 then join '', '' (map col_name cs) else ''*'')
     = (if map col_name cs = [] then ''*'' else join '', '' (map col_name cs))"
  by simp

lemma select_query:
  "buildSelectQuery nts t sfx =
     (unlimitedSelect t
        @ (case limitOffset t of
             None \<Rightarrow> []
           | Some lo \<Rightarrow>
               (if truthyNum (limit lo) then '' LIMIT '' @ nts (the (limit lo)) else [])
               @ (if truthyNum (offset lo) then '' OFFSET '' @ nts (the (offset lo)) else []))
        @ sfx,
      map w_value (whereList t))"
  unfolding buildSelectQuery_def Let_def where_text where_params order_text select_columns
    unlimitedSelect_def plainSelect_def whereList_def orderList_def
  by (simp split: option.split)

lemma select_statement:
  "buildSelectQuery nts t sfx =
     (unlimitedSelect t @ limitOffsetText nts (limitOffset t) @ sfx, map w_value (whereList t))"
  by (simp add: select_query limitOffsetText_def truthyNum_def split: option.split)




lemma unlimitedSelect_limitOffset [simp]:
  "unlimitedSelect (t\<lparr>limitOffset := lo\<rparr>) = unlimitedSelect t"
  "whereList (t\<lparr>limitOffset := lo\<rparr>) = whereList t"
  by (simp_all add: unlimitedSelect_def whereList_def orderList_def)




lemma setColumns_words:
  "setColumns t = filter (\<lambda>c. col_value c \<noteq> JUndefined \<and>
       col_name c \<notin> w_name ` set (case wheres t of None \<Rightarrow> [] | Some wl \<Rightarrow> wl)) (cols t)"
proof (cases "wheres t")
  case None
  then show ?thesis by (simp add: setColumns_def)
next
  case (Some wl)
  have eq: "\<And>n. list_ex (\<lambda>w. w_name w = n) wl = (n \<in> w_name ` set wl)"
    by (force simp: list_ex_iff)
  from Some show ?thesis by (simp add: setColumns_def eq)
qed

lemma buildWhereClause_empty:
  "wheres t = None \<or> wheres t = Some [] \<Longrightarrow> buildWhereClause (wheres t) c = ([], [])"
  by (auto simp: buildWhereClause_def)

lemma buildWhereClause_text:
  "fst (buildWhereClause ws c) \<noteq> [] \<Longrightarrow> \<exists>b. fst (buildWhereClause ws c) = '' '' @ c @ '' '' @ b"
  by (cases ws) (auto simp: buildWhereClause_def)

lemma updateStatement_where:
  assumes "updateStatement t = Inr (sql, ps)"
  shows "\<exists>a b. sql = a @ '' WHERE '' @ b"
proof -
  let ?wc = "fst (buildWhereClause (wheres t) ''WHERE'')"
  from assms have ne: "?wc \<noteq> []" and
    sql: "sql = (''UPDATE '' @ qt_name t @ '' SET '' @
            join '', '' (map (\<lambda>c. col_name c @ '' = ?'') (setColumns t))) @ ?wc"
    by (simp_all add: updateStatement_def Let_def split: if_splits)
  from buildWhereClause_text[OF ne] obtain b where "?wc = '' WHERE '' @ b" by auto
  with sql show ?thesis by blast
qed

lemma deleteStatement_where:
  assumes "deleteStatement t = Inr (sql, ps)"
  shows "\<exists>a b. sql = a @ '' WHERE '' @ b"
proof -
  let ?wc = "fst (buildWhereClause (wheres t) ''WHERE'')"
  from assms have ne: "?wc \<noteq> []" and
    sql: "sql = (''DELETE FROM '' @ qt_name t) @ ?wc"
    by (simp_all add: deleteStatement_def Let_def split: if_splits)
  from buildWhereClause_text[OF ne] obtain b where "?wc = '' WHERE '' @ b" by auto
  with sql show ?thesis by blast
qed

text \<open>
  C6.  \<^verbatim>\<open>update\<close> throws, leaving the world (and so the trace of executed SQL)
  unchanged, when no column has a defined value and a name outside the WHERE list,
  and when the WHERE list is empty or absent; \<^verbatim>\<open>delete\<close> throws in the same way when
  the WHERE list is empty or absent.  A statement that is built always carries a
  \<^verbatim>\<open>WHERE\<close> clause.
\<close>

theorem update_delete_reject_missing_set_or_where:
  "(filter (\<lambda>c. col_value c \<noteq> JUndefined \<and>
        col_name c \<notin> w_name ` set (case wheres t of None \<Rightarrow> [] | Some wl \<Rightarrow> wl)) (cols t) = []
      \<longrightarrow> daoUpdate E r t w = (Inl NoColumnsToUpdate, w))
   \<and> (wheres t = None \<or> wheres t = Some []
      \<longrightarrow> (daoUpdate E r t w = (Inl NoColumnsToUpdate, w)
           \<or> daoUpdate E r t w = (Inl WhereRequiredForUpdate, w))
        \<and> daoDelete E r t w = (Inl WhereRequiredForDelete, w))
   \<and> (\<forall>sql ps. updateStatement t = Inr (sql, ps) \<or> deleteStatement t = Inr (sql, ps)
        \<longrightarrow> (\<exists>a b. sql = a @ '' WHERE '' @ b))"
proof (intro conjI impI allI)
  assume "filter (\<lambda>c. col_value c \<noteq> JUndefined \<and>
        col_name c \<notin> w_name ` set (case wheres t of None \<Rightarrow> [] | Some wl \<Rightarrow> wl)) (cols t) = []"
  then have "setColumns t = []" by (simp add: setColumns_words)
  then show "daoUpdate E r t w = (Inl NoColumnsToUpdate, w)"
    by (simp add: daoUpdate_def updateStatement_def)
next
  assume h: "wheres t = None \<or> wheres t = Some []"
  from buildWhereClause_empty[OF h]
  show "daoUpdate E r t w = (Inl NoColumnsToUpdate, w)
           \<or> daoUpdate E r t w = (Inl WhereRequiredForUpdate, w)"
    by (simp add: daoUpdate_def updateStatement_def Let_def)
next
  assume h: "wheres t = None \<or> wheres t = Some []"
  from buildWhereClause_empty[OF h]
  show "daoDelete E r t w = (Inl WhereRequiredForDelete, w)"
    by (simp add: daoDelete_def deleteStatement_def Let_def)
next
  fix sql ps
  assume "updateStatement t = Inr (sql, ps) \<or> deleteStatement t = Inr (sql, ps)"
  then show "\<exists>a b. sql = a @ '' WHERE '' @ b"
    using updateStatement_where deleteStatement_where by blast
qed

theorem update_delete_reject_witness:
  "daoUpdate exampleEnv 0 (exampleTable JUndefined (JNum 1)) coreWorld
     = (Inl NoColumnsToUpdate, coreWorld)
   \<and> daoUpdate exampleEnv 0 ((exampleTable (JStr ''a'') (JNum 1))\<lparr>wheres := Some []\<rparr>) coreWorld
     = (Inl WhereRequiredForUpdate, coreWorld)
   \<and> daoDelete exampleEnv 0 ((exampleTable (JStr ''a'') (JNum 1))\<lparr>wheres := None\<rparr>) coreWorld
     = (Inl WhereRequiredForDelete, coreWorld)
   \<and> deleteStatement (exampleTable (JStr ''a'') (JNum 1))
     = Inr (''DELETE FROM users WHERE id = ?'', [JNum 1])
   \<and> (\<exists>a b. ''DELETE FROM users WHERE id = ?'' = a @ '' WHERE '' @ b)"
proof -
  let ?t1 = "exampleTable JUndefined (JNum 1)"
  let ?t2 = "(exampleTable (JStr ''a'') (JNum 1))\<lparr>wheres := Some []\<rparr>"
  let ?t3 = "(exampleTable (JStr ''a'') (JNum 1))\<lparr>wheres := None\<rparr>"
  let ?t4 = "exampleTable (JStr ''a'') (JNum 1)"
  have a: "filter (\<lambda>c. col_value c \<noteq> JUndefined \<and>
        col_name c \<notin> w_name ` set (case wheres ?t1 of None \<Rightarrow> [] | Some wl \<Rightarrow> wl)) (cols ?t1) = []"
    by (simp add: exampleTable_def)
  have b: "wheres ?t2 = None \<or> wheres ?t2 = Some []" by simp
  have b': "daoUpdate exampleEnv 0 ?t2 coreWorld \<noteq> (Inl NoColumnsToUpdate, coreWorld)"
    by (simp add: daoUpdate_def updateStatement_def setColumns_def exampleTable_def
        buildWhereClause_def)
  have c: "wheres ?t3 = None \<or> wheres ?t3 = Some []" by simp
  have d: "deleteStatement ?t4 = Inr (''DELETE FROM users WHERE id = ?'', [JNum 1])"
    by (simp add: deleteStatement_def exampleTable_def buildWhereClause_def)
  note T1 = update_delete_reject_missing_set_or_where[where t = ?t1 and E = exampleEnv and r = 0 and w = coreWorld]
  note T2 = update_delete_reject_missing_set_or_where[where t = ?t2 and E = exampleEnv and r = 0 and w = coreWorld]
  note T3 = update_delete_reject_missing_set_or_where[where t = ?t3 and E = exampleEnv and r = 0 and w = coreWorld]
  note T4 = update_delete_reject_missing_set_or_where[where t = ?t4 and E = exampleEnv and r = 0 and w = coreWorld]
  from T1 a have 1: "daoUpdate exampleEnv 0 ?t1 coreWorld = (Inl NoColumnsToUpdate, coreWorld)" by blast
  from T2 b b' have 2: "daoUpdate exampleEnv 0 ?t2 coreWorld = (Inl WhereRequiredForUpdate, coreWorld)" by blast
  from T3 c have 3: "daoDelete exampleEnv 0 ?t3 coreWorld = (Inl WhereRequiredForDelete, coreWorld)" by blast
  from T4 d have 4: "\<exists>a b. ''DELETE FROM users WHERE id = ?'' = a @ '' WHERE '' @ b" by blast
  from 1 2 3 4 d show ?thesis by blast
qed

lemma where_text_names:
  assumes "map_option (map w_name) ws = map_option (map w_name) ws'"
  shows "fst (buildWhereClause ws c) = fst (buildWhereClause ws' c)"
proof (cases ws)
  case None
  with assms have "ws' = None" by simp
  with None show ?thesis by simp
next
  case (Some wl)
  with assms obtain wl' where ws': "ws' = Some wl'" and n: "map w_name wl = map w_name wl'"
    by (cases ws') auto
  from n have len: "length wl = length wl'" by (rule map_eq_imp_length_eq)
  have "map (\<lambda>w. w_name w @ '' = ?'') wl = map (\<lambda>n. n @ '' = ?'') (map w_name wl)"
    by simp
  also have "\<dots> = map (\<lambda>n. n @ '' = ?'') (map w_name wl')" by (simp only: n)
  also have "\<dots> = map (\<lambda>w. w_name w @ '' = ?'') wl'" by simp
  finally show ?thesis using Some ws' len by (simp add: buildWhereClause_def)
qed

lemma filter_names:
  "map f xs = map f ys \<Longrightarrow> map P xs = map Q ys \<Longrightarrow> map f (filter P xs) = map f (filter Q ys)"
  by (induction xs arbitrary: ys) auto

lemma select_text_names:
  assumes n: "qt_name t = qt_name t'" and c: "map col_name (cols t) = map col_name (cols t')"
    and w: "map_option (map w_name) (wheres t) = map_option (map w_name) (wheres t')"
    and ob: "orderbys t = orderbys t'" and lo: "limitOffset t = limitOffset t'"
  shows "fst (buildSelectQuery nts t s) = fst (buildSelectQuery nts t' s)"
proof -
  from c have len: "length (cols t) = length (cols t')" by (rule map_eq_imp_length_eq)
  note wt = where_text_names[OF w, of "''WHERE''"]
  show ?thesis
    unfolding buildSelectQuery_def Let_def fst_conv n c ob lo len wt ..
qed

lemma condition_empty: "(conditionText names = []) = (names = [])"
  by (simp add: conditionText_def)

lemma where_clause:
  "buildWhereClause (wheres t) ''WHERE''
     = (conditionText (map w_name (whereList t)), map w_value (whereList t))"
  using where_text[of "wheres t"] where_params[of "wheres t" "''WHERE''"]
  by (simp add: whereList_def prod_eq_iff)

lemma bound_value: "bindParam = boundValue"
proof
  fix v show "bindParam v = boundValue v" by (cases v) simp_all
qed

lemma insert_statement:
  "insertStatement t =
     (if insertedColumns t = [] then Inl NoValidColumnsToInsert
      else Inr (insertText (qt_name t) (map col_name (insertedColumns t)),
                map (\<lambda>c. boundValue (col_value c)) (insertedColumns t)))"
  unfolding insertStatement_def Let_def insertedColumns_def insertText_def bound_value
  by (simp add: map_replicate_const)

lemma assigned_setColumns: "setColumns t = assignedColumns t"
  by (simp add: setColumns_words assignedColumns_def whereList_def)

lemma update_statement:
  "updateStatement t =
     (if assignedColumns t = [] then Inl NoColumnsToUpdate
      else if whereList t = [] then Inl WhereRequiredForUpdate
      else Inr (updateText (qt_name t) (map col_name (assignedColumns t))
                  (map w_name (whereList t)),
                map (\<lambda>c. boundValue (col_value c)) (assignedColumns t)
                  @ map w_value (whereList t)))"
  unfolding updateStatement_def Let_def assigned_setColumns where_clause updateText_def bound_value
  by (simp add: condition_empty comp_def)

lemma delete_statement:
  "deleteStatement t =
     (if whereList t = [] then Inl WhereRequiredForDelete
      else Inr (deleteText (qt_name t) (map w_name (whereList t)), map w_value (whereList t)))"
  unfolding deleteStatement_def Let_def where_clause deleteText_def
  by (simp add: condition_empty)

lemma names_whereList:
  "map_option (map w_name) (wheres t) = map_option (map w_name) (wheres t')
     \<Longrightarrow> map w_name (whereList t) = map w_name (whereList t')"
  by (cases "wheres t"; cases "wheres t'") (auto simp: whereList_def)

lemma names_inserted:
  assumes "map col_name (cols t) = map col_name (cols t')"
    "map (\<lambda>c. col_value c = JUndefined) (cols t) = map (\<lambda>c. col_value c = JUndefined) (cols t')"
    "map (\<lambda>c. col_value c = JNull) (cols t) = map (\<lambda>c. col_value c = JNull) (cols t')"
  shows "map col_name (insertedColumns t) = map col_name (insertedColumns t')"
proof -
  let ?P = "\<lambda>c. col_value c \<noteq> JUndefined \<and> col_value c \<noteq> JNull"
  from assms(2,3) have "map ?P (cols t) = map ?P (cols t')"
    by (auto simp: map_equality_iff)
  from filter_names[OF assms(1) this] show ?thesis by (simp add: insertedColumns_def)
qed

lemma names_assigned:
  assumes "map col_name (cols t) = map col_name (cols t')"
    "map (\<lambda>c. col_value c = JUndefined) (cols t) = map (\<lambda>c. col_value c = JUndefined) (cols t')"
    "map w_name (whereList t) = map w_name (whereList t')"
  shows "map col_name (assignedColumns t) = map col_name (assignedColumns t')"
proof -
  have s: "w_name ` set (whereList t) = w_name ` set (whereList t')"
    using assms(3) by (metis set_map)
  let ?P = "\<lambda>c. col_value c \<noteq> JUndefined \<and> col_name c \<notin> w_name ` set (whereList t)"
  from assms(1,2) have "map ?P (cols t) = map ?P (cols t')"
    by (auto simp: map_equality_iff)
  from filter_names[OF assms(1) this] show ?thesis by (simp add: assignedColumns_def s)
qed

lemma names_empty: "map f xs = map f ys \<Longrightarrow> (xs = []) = (ys = [])"
  by (cases xs; cases ys) simp_all

text \<open>
  C2, as amended.  The SQL text of \<^verbatim>\<open>buildWhereClause\<close>, \<^verbatim>\<open>buildSelectQuery\<close> and of
  the statements of \<^verbatim>\<open>insert\<close>, \<^verbatim>\<open>update\<close> and \<^verbatim>\<open>delete\<close> is the same for two
  descriptors with the same table name, column names, WHERE names, ORDER BY list and
  LIMIT/OFFSET, provided their column values are undefined at the same positions and
  null at the same positions.  For every descriptor the text is the statement the
  specification describes, built from the names alone (and, for a select, the numbers
  of its \<^verbatim>\<open>LIMIT\<close> and \<^verbatim>\<open>OFFSET\<close> clause) with one placeholder for each WHERE
  condition and for each column that is kept, and the parameter list consists of
  exactly the values of the kept columns (an object, null included, as its JSON text)
  followed by the WHERE values, in the order of their placeholders.
\<close>

theorem sql_text_independent_of_bound_values:
  assumes "qt_name t = qt_name t'" and "map col_name (cols t) = map col_name (cols t')"
    and "map (\<lambda>c. col_value c = JUndefined) (cols t) = map (\<lambda>c. col_value c = JUndefined) (cols t')"
    and "map (\<lambda>c. col_value c = JNull) (cols t) = map (\<lambda>c. col_value c = JNull) (cols t')"
    and "map_option (map w_name) (wheres t) = map_option (map w_name) (wheres t')"
    and "orderbys t = orderbys t'" and "limitOffset t = limitOffset t'"
  shows "fst (buildWhereClause (wheres t) c) = fst (buildWhereClause (wheres t') c)
    \<and> fst (buildSelectQuery nts t s) = fst (buildSelectQuery nts t' s)
    \<and> map_sum id fst (insertStatement t) = map_sum id fst (insertStatement t')
    \<and> map_sum id fst (updateStatement t) = map_sum id fst (updateStatement t')
    \<and> map_sum id fst (deleteStatement t) = map_sum id fst (deleteStatement t')
    \<and> snd (buildWhereClause (wheres t) c) = map w_value (whereList t)
    \<and> buildWhereClause (wheres t) ''WHERE''
        = (conditionText (map w_name (whereList t)), map w_value (whereList t))
    \<and> buildSelectQuery nts t s
        = (unlimitedSelect t @ limitOffsetText nts (limitOffset t) @ s, map w_value (whereList t))
    \<and> insertStatement t =
        (if insertedColumns t = [] then Inl NoValidColumnsToInsert
         else Inr (insertText (qt_name t) (map col_name (insertedColumns t)),
                   map (\<lambda>c. boundValue (col_value c)) (insertedColumns t)))
    \<and> updateStatement t =
        (if assignedColumns t = [] then Inl NoColumnsToUpdate
         else if whereList t = [] then Inl WhereRequiredForUpdate
         else Inr (updateText (qt_name t) (map col_name (assignedColumns t))
                     (map w_name (whereList t)),
                   map (\<lambda>c. boundValue (col_value c)) (assignedColumns t)
                     @ map w_value (whereList t)))
    \<and> deleteStatement t =
        (if whereList t = [] then Inl WhereRequiredForDelete
         else Inr (deleteText (qt_name t) (map w_name (whereList t)),
                   map w_value (whereList t)))"
proof -
  note wn = names_whereList[OF assms(5)]
  note ic = names_inserted[OF assms(2,3,4)]
  note ac = names_assigned[OF assms(2,3) wn]
  have 1: "fst (buildWhereClause (wheres t) c) = fst (buildWhereClause (wheres t') c)"
    by (rule where_text_names[OF assms(5)])
  have 2: "fst (buildSelectQuery nts t s) = fst (buildSelectQuery nts t' s)"
    by (rule select_text_names[OF assms(1,2,5,6,7)])
  have 3: "map_sum id fst (insertStatement t) = map_sum id fst (insertStatement t')"
    using names_empty[OF ic] by (simp add: insert_statement ic assms(1))
  have 4: "map_sum id fst (updateStatement t) = map_sum id fst (updateStatement t')"
    using names_empty[OF ac] names_empty[OF wn] by (simp add: update_statement ac wn assms(1))
  have 5: "map_sum id fst (deleteStatement t) = map_sum id fst (deleteStatement t')"
    using names_empty[OF wn] by (simp add: delete_statement wn assms(1))
  have 6: "snd (buildWhereClause (wheres t) c) = map w_value (whereList t)"
    by (simp add: where_params whereList_def)
  from 1 2 3 4 5 6 where_clause[of t] select_statement[of nts t s] insert_statement[of t]
    update_statement[of t] delete_statement[of t]
  show ?thesis by (intro conjI)
qed

theorem sql_text_independent_of_bound_values_witness:
  "fst (buildSelectQuery showInt (exampleTable (JStr ''alice'') (JNum 1)) [])
     = fst (buildSelectQuery showInt (exampleTable (JStr ''x; DROP TABLE users'') (JStr ''1 OR 1=1'')) [])
   \<and> insertStatement (exampleTable (JStr ''alice'') (JNum 1))
     = Inr (''INSERT INTO users (name) VALUES (?)'', [JStr ''alice''])
   \<and> insertStatement (exampleTable (JStr ''x; DROP TABLE users'') (JStr ''1 OR 1=1''))
     = Inr (''INSERT INTO users (name) VALUES (?)'', [JStr ''x; DROP TABLE users''])
   \<and> updateStatement (exampleTable (JStr ''alice'') (JNum 1))
     = Inr (''UPDATE users SET name = ? WHERE id = ?'', [JStr ''alice'', JNum 1])
   \<and> updateStatement (exampleTable (JStr ''x; DROP TABLE users'') (JStr ''1 OR 1=1''))
     = Inr (''UPDATE users SET name = ? WHERE id = ?'', [JStr ''x; DROP TABLE users'', JStr ''1 OR 1=1''])
   \<and> deleteStatement (exampleTable (JStr ''alice'') (JNum 1))
     = Inr (''DELETE FROM users WHERE id = ?'', [JNum 1])
   \<and> deleteStatement (exampleTable (JStr ''x; DROP TABLE users'') (JStr ''1 OR 1=1''))
     = Inr (''DELETE FROM users WHERE id = ?'', [JStr ''1 OR 1=1''])
   \<and> buildWhereClause (wheres (exampleTable (JStr ''alice'') (JNum 1))) ''WHERE''
     = ('' WHERE id = ?'', [JNum 1])
   \<and> buildSelectQuery showInt (exampleTable (JStr ''alice'') (JNum 1)) []
     = (''SELECT name FROM users WHERE id = ?'', [JNum 1])"
proof -
  let ?a = "exampleTable (JStr ''alice'') (JNum 1)"
  let ?b = "exampleTable (JStr ''x; DROP TABLE users'') (JStr ''1 OR 1=1'')"
  have h1: "qt_name ?a = qt_name ?b" by (simp add: exampleTable_def)
  have h2: "map col_name (cols ?a) = map col_name (cols ?b)" by (simp add: exampleTable_def)
  have h3: "map (\<lambda>c. col_value c = JUndefined) (cols ?a) = map (\<lambda>c. col_value c = JUndefined) (cols ?b)"
    by (simp add: exampleTable_def)
  have h4: "map (\<lambda>c. col_value c = JNull) (cols ?a) = map (\<lambda>c. col_value c = JNull) (cols ?b)"
    by (simp add: exampleTable_def)
  have h5: "map_option (map w_name) (wheres ?a) = map_option (map w_name) (wheres ?b)"
    by (simp add: exampleTable_def)
  have h6: "orderbys ?a = orderbys ?b" by (simp add: exampleTable_def)
  have h7: "limitOffset ?a = limitOffset ?b" by (simp add: exampleTable_def)
  have e: "qt_name (exampleTable v k) = ''users''"
    "insertedColumns (exampleTable (JStr x) k) = [\<lparr>col_name = ''name'', col_value = JStr x\<rparr>]"
    "assignedColumns (exampleTable (JStr x) k) = [\<lparr>col_name = ''name'', col_value = JStr x\<rparr>]"
    "whereList (exampleTable v k) = [\<lparr>w_name = ''id'', w_value = k, w_operator = None\<rparr>]"
    for v k x
    by (simp_all add: exampleTable_def insertedColumns_def assignedColumns_def whereList_def)
  have sel: "unlimitedSelect (exampleTable v k) = ''SELECT name FROM users WHERE id = ?''"
    "limitOffsetText showInt (limitOffset (exampleTable v k)) = []" for v k
    by (simp_all add: unlimitedSelect_def plainSelect_def conditionText_def orderByText_def
        whereList_def orderList_def limitOffsetText_def exampleTable_def)
  have tx: "insertText ''users'' [''name''] = ''INSERT INTO users (name) VALUES (?)''"
    "updateText ''users'' [''name''] [''id''] = ''UPDATE users SET name = ? WHERE id = ?''"
    "deleteText ''users'' [''id''] = ''DELETE FROM users WHERE id = ?''"
    "conditionText [''id''] = '' WHERE id = ?''"
    by (simp_all add: insertText_def updateText_def deleteText_def conditionText_def)
  note A = sql_text_independent_of_bound_values[OF h1 h2 h3 h4 h5 h6 h7, of "''WHERE''" showInt "[]"]
  note B = sql_text_independent_of_bound_values[OF h1[symmetric] h2[symmetric] h3[symmetric]
      h4[symmetric] h5[symmetric] h6[symmetric] h7[symmetric], of "''WHERE''" showInt "[]"]
  from A B show ?thesis by (simp add: e tx sel)
qed

text \<open>
  The claim as first stated fails: \<^verbatim>\<open>insert\<close> drops a column whose value is null,
  so two descriptors that differ only in a column value get different statements.
\<close>

theorem insert_text_depends_on_null_value_counterexample:
  "map col_name [\<lparr>col_name = ''a'', col_value = JNum 1\<rparr>, \<lparr>col_name = ''b'', col_value = JNull\<rparr>]
     = map col_name [\<lparr>col_name = ''a'', col_value = JNum 1\<rparr>, \<lparr>col_name = ''b'', col_value = JNum 2\<rparr>]
   \<and> insertStatement \<lparr>qt_name = ''t'',
        cols = [\<lparr>col_name = ''a'', col_value = JNum 1\<rparr>, \<lparr>col_name = ''b'', col_value = JNull\<rparr>],
        wheres = None, orderbys = None, limitOffset = None\<rparr>
       = Inr (''INSERT INTO t (a) VALUES (?)'', [JNum 1])
   \<and> insertStatement \<lparr>qt_name = ''t'',
        cols = [\<lparr>col_name = ''a'', col_value = JNum 1\<rparr>, \<lparr>col_name = ''b'', col_value = JNum 2\<rparr>],
        wheres = None, orderbys = None, limitOffset = None\<rparr>
       = Inr (''INSERT INTO t (a, b) VALUES (?, ?)'', [JNum 1, JNum 2])"
  by (simp add: insertStatement_def)

section \<open>The column-constraint scanner\<close>

lemma indexOf_ge: "- 1 \<le> indexOf cs x"
  by (induction cs) (auto simp: Let_def)

lemma indexOf_absent: "(indexOf cs x = - 1) = (x \<notin> set cs)"
proof (induction cs)
  case Nil
  show ?case by simp
next
  case (Cons y ys)
  from indexOf_ge[of ys x] have "indexOf ys x = - 1 \<or> 0 \<le> indexOf ys x" by linarith
  with Cons show ?case by (auto simp: Let_def)
qed

lemma default_token:
  "(if indexOf cs x \<noteq> - 1 \<and> int (length cs) > indexOf cs x + 1
    then Some (cs ! nat (indexOf cs x + 1)) else None) = tokenAfter x cs"
proof (induction cs)
  case Nil
  show ?case by (simp add: tokenAfter_def)
next
  case (Cons y ys)
  show ?case
  proof (cases "y = x")
    case True
    then show ?thesis by (cases ys) (simp_all add: tokenAfter_def)
  next
    case False
    from indexOf_ge[of ys x] have "indexOf ys x = - 1 \<or> 0 \<le> indexOf ys x" by linarith
    then show ?thesis
    proof
      assume a: "indexOf ys x = - 1"
      then have "x \<notin> set ys" by (simp add: indexOf_absent)
      then have dw: "dropWhile (\<lambda>t. t \<noteq> x) ys = []" by (auto simp: dropWhile_eq_Nil_conv)
      from a False show ?thesis by (simp add: tokenAfter_def dw)
    next
      assume a: "0 \<le> indexOf ys x"
      then have n: "nat (indexOf ys x + 1 + 1) = Suc (nat (indexOf ys x + 1))" by linarith
      from a have ne: "indexOf ys x \<noteq> - 1" by linarith
      from Cons a ne False n show ?thesis
        by (auto simp: tokenAfter_def Let_def add.commute split: if_splits)
    qed
  qed
qed

lemma scan_fragments:
  "fst (scanConstraints cs p) = fragments (''PRIMARY'' \<in> set cs \<or> primary_key p = Some True) cs"
  by (cases "''PRIMARY'' \<in> set cs"; cases "primary_key p = Some True";
      cases "''AUTO_INCREMENT'' \<in> set cs \<or> ''AUTOINCREMENT'' \<in> set cs";
      cases "''NOT'' \<in> set cs \<and> ''NULL'' \<in> set cs"; cases "''UNIQUE'' \<in> set cs";
      cases "indexOf cs ''DEFAULT'' \<noteq> - 1 \<and> int (length cs) > indexOf cs ''DEFAULT'' + 1")
     (simp_all add: scanConstraints_def fragments_def Let_def default_token[symmetric])

lemma tokens_empty: "fragments pk (splitOn CHR '' '' (toUpperCase [])) = []"
  by (simp add: fragments_def toUpperCase_def tokenAfter_def)

text \<open>
  C7, as amended.  The scanner upper-cases the constraint string, splits it on spaces
  and emits exactly: \<^verbatim>\<open>PRIMARY KEY\<close> iff the token PRIMARY is present;
  \<^verbatim>\<open>AUTOINCREMENT\<close> iff AUTO_INCREMENT or AUTOINCREMENT is present and the column is a
  primary key, that is PRIMARY is present or the \<^verbatim>\<open>primary_key\<close> flag of the column
  definition is already set; \<^verbatim>\<open>NOT NULL\<close> iff NOT and NULL are present; \<^verbatim>\<open>UNIQUE\<close> iff
  UNIQUE is present and the column is not a primary key in that sense; \<^verbatim>\<open>DEFAULT t\<close>
  for the token \<open>t\<close> after the first DEFAULT, iff there is one.  \<^verbatim>\<open>option_key\<close> is
  the trimmed join of these fragments.
\<close>

theorem constraint_scanner_fragments:
  "fst (scanConstraints cs p) = fragments (''PRIMARY'' \<in> set cs \<or> primary_key p = Some True) cs
   \<and> option_key (processColumnDefinition cfg (col\<lparr>constraints := Some c\<rparr>))
       = Some (trim (join '' '' (fragments
            (''PRIMARY'' \<in> set (splitOn CHR '' '' (toUpperCase c)) \<or> primary_key col = Some True)
            (splitOn CHR '' '' (toUpperCase c)))))"
proof
  show "fst (scanConstraints cs p) = fragments (''PRIMARY'' \<in> set cs \<or> primary_key p = Some True) cs"
    by (rule scan_fragments)
next
  show "option_key (processColumnDefinition cfg (col\<lparr>constraints := Some c\<rparr>))
       = Some (trim (join '' '' (fragments
            (''PRIMARY'' \<in> set (splitOn CHR '' '' (toUpperCase c)) \<or> primary_key col = Some True)
            (splitOn CHR '' '' (toUpperCase c)))))"
  proof (cases "c = []")
    case True
    then show ?thesis
      unfolding processColumnDefinition_def Let_def by (simp add: tokens_empty)
  next
    case False
    then show ?thesis
      unfolding processColumnDefinition_def Let_def
      by (simp add: split_def scan_fragments)
  qed
qed

text \<open>
  The claim as first stated fails for a column definition that already carries
  \<^verbatim>\<open>primary_key: true\<close>: \<^verbatim>\<open>AUTOINCREMENT\<close> is emitted and \<^verbatim>\<open>UNIQUE\<close> is dropped
  although the token PRIMARY is absent.
\<close>

theorem autoincrement_without_primary_token_counterexample:
  "''PRIMARY'' \<notin> set (splitOn CHR '' '' (toUpperCase ''AUTOINCREMENT UNIQUE''))
   \<and> ''UNIQUE'' \<in> set (splitOn CHR '' '' (toUpperCase ''AUTOINCREMENT UNIQUE''))
   \<and> option_key (processColumnDefinition None
         \<lparr>cd_name = ''id'', cd_type = ''integer'', option_key = None,
            nullable = None, cd_default = None, primary_key = Some True, auto_increment = None,
            cd_unique = None, constraints = Some ''AUTOINCREMENT UNIQUE''\<rparr>)
       = Some ''AUTOINCREMENT''"
  by code_simp

section \<open>Transactions on one handle\<close>

lemma openTransactions_snoc:
  "openTransactions r (tr @ [e]) = openTransactions r tr + txDelta r e"
  by (simp add: openTransactions_def)

lemma runSql_cases:
  "runSql E r sql ps w = (Inl DatabaseNotInitialized, w)
   \<or> (\<exists>e. runSql E r sql ps w = (Inl e, record_event (NativeExec r sql ps False) w))
   \<or> runSql E r sql ps w = (Inr (''Executed: '' @ sql), record_event (NativeExec r sql ps True) w)"
  by (auto simp: runSql_def Let_def split: sum.splits)

lemma daos_updDao [simp]: "daos (updDao r f w) h = (if h = r then f (daos w r) else daos w h)"
  by (simp add: updDao_def)

lemma trace_updDao [simp]: "trace (updDao r f w) = trace w"
  by (simp add: updDao_def)

lemma daos_record_event [simp]: "daos (record_event e w) = daos w"
  by (simp add: record_event_def)

lemma trace_record_event [simp]: "trace (record_event e w) = trace w @ [e]"
  by (simp add: record_event_def)

lemma begin_cases:
  "beginTransaction E r w = (Inl TransactionAlreadyInProgress, w) \<and> inTransaction (daos w r)
   \<or> beginTransaction E r w = (Inl DatabaseNotInitialized, w)
   \<or> (\<exists>e. beginTransaction E r w =
          (Inl e, record_event (NativeExec r ''BEGIN TRANSACTION'' [] False) w))
   \<or> \<not> inTransaction (daos w r) \<and> beginTransaction E r w =
       (Inr (), updDao r (\<lambda>d. d\<lparr>inTransaction := True\<rparr>)
                  (record_event (NativeExec r ''BEGIN TRANSACTION'' [] True) w))"
  using runSql_cases[of E r "''BEGIN TRANSACTION''" "[]" w]
  by (auto simp: beginTransaction_def)

lemma commit_cases:
  "commitTransaction E r w = (Inl NoTransactionInProgress, w) \<and> \<not> inTransaction (daos w r)
   \<or> commitTransaction E r w = (Inl DatabaseNotInitialized, w)
   \<or> (\<exists>e. commitTransaction E r w = (Inl e, record_event (NativeExec r ''COMMIT'' [] False) w))
   \<or> inTransaction (daos w r) \<and> commitTransaction E r w =
       (Inr (), updDao r (\<lambda>d. d\<lparr>inTransaction := False\<rparr>)
                  (record_event (NativeExec r ''COMMIT'' [] True) w))"
  using runSql_cases[of E r "''COMMIT''" "[]" w]
  by (auto simp: commitTransaction_def)

lemma rollback_cases:
  "rollbackTransaction E r w = (Inl NoTransactionInProgress, w) \<and> \<not> inTransaction (daos w r)
   \<or> rollbackTransaction E r w = (Inl DatabaseNotInitialized, w)
   \<or> (\<exists>e. rollbackTransaction E r w = (Inl e, record_event (NativeExec r ''ROLLBACK'' [] False) w))
   \<or> inTransaction (daos w r) \<and> rollbackTransaction E r w =
       (Inr (), updDao r (\<lambda>d. d\<lparr>inTransaction := False\<rparr>)
                  (record_event (NativeExec r ''ROLLBACK'' [] True) w))"
  using runSql_cases[of E r "''ROLLBACK''" "[]" w]
  by (auto simp: rollbackTransaction_def)

lemma begin_inv: "txInvariant h w \<Longrightarrow> txInvariant h (snd (beginTransaction E r w))"
  using begin_cases[of E r w]
  by (cases "h = r") (auto simp: txInvariant_def openTransactions_snoc)

lemma commit_inv: "txInvariant h w \<Longrightarrow> txInvariant h (snd (commitTransaction E r w))"
  using commit_cases[of E r w]
  by (cases "h = r") (auto simp: txInvariant_def openTransactions_snoc)

lemma rollback_inv: "txInvariant h w \<Longrightarrow> txInvariant h (snd (rollbackTransaction E r w))"
  using rollback_cases[of E r w]
  by (cases "h = r") (auto simp: txInvariant_def openTransactions_snoc)

text \<open>
  C4.  On every handle: \<^verbatim>\<open>beginTransaction\<close> throws, issuing no SQL, when a
  transaction is in progress; \<^verbatim>\<open>commitTransaction\<close> and \<^verbatim>\<open>rollbackTransaction\<close> throw,
  issuing no SQL, when none is; a successful call flips the flag; and each of the three
  operations, on any handle and whatever its outcome, preserves that the number of
  transactions a handle has open at the engine is 1 when its flag is set and 0
  otherwise, so never more than one.
\<close>

theorem single_transaction_per_handle:
  "(inTransaction (daos w r) \<longrightarrow> beginTransaction E r w = (Inl TransactionAlreadyInProgress, w))
   \<and> (\<not> inTransaction (daos w r) \<longrightarrow>
        commitTransaction E r w = (Inl NoTransactionInProgress, w)
        \<and> rollbackTransaction E r w = (Inl NoTransactionInProgress, w))
   \<and> (\<forall>w'. beginTransaction E r w = (Inr (), w') \<longrightarrow>
        \<not> inTransaction (daos w r) \<and> inTransaction (daos w' r))
   \<and> (\<forall>w'. commitTransaction E r w = (Inr (), w') \<or> rollbackTransaction E r w = (Inr (), w') \<longrightarrow>
        inTransaction (daos w r) \<and> \<not> inTransaction (daos w' r))
   \<and> (txInvariant h w \<longrightarrow>
        openTransactions h (trace w) \<le> 1
        \<and> txInvariant h (snd (beginTransaction E r w))
        \<and> txInvariant h (snd (commitTransaction E r w))
        \<and> txInvariant h (snd (rollbackTransaction E r w)))"
proof (intro conjI impI allI)
  fix w' assume "beginTransaction E r w = (Inr (), w')"
  with begin_cases[of E r w]
  show "\<not> inTransaction (daos w r)" "inTransaction (daos w' r)" by auto
next
  fix w' assume "commitTransaction E r w = (Inr (), w') \<or> rollbackTransaction E r w = (Inr (), w')"
  with commit_cases[of E r w] rollback_cases[of E r w]
  show "inTransaction (daos w r)" "\<not> inTransaction (daos w' r)" by auto
next
  assume "txInvariant h w"
  then show "openTransactions h (trace w) \<le> 1" by (simp add: txInvariant_def split: if_splits)
next
  assume "txInvariant h w"
  then show "txInvariant h (snd (beginTransaction E r w))" by (rule begin_inv)
next
  assume "txInvariant h w"
  then show "txInvariant h (snd (commitTransaction E r w))" by (rule commit_inv)
next
  assume "txInvariant h w"
  then show "txInvariant h (snd (rollbackTransaction E r w))" by (rule rollback_inv)
qed (simp_all add: beginTransaction_def commitTransaction_def rollbackTransaction_def)

theorem single_transaction_witness:
  "beginTransaction exampleEnv 0 coreWorldTx = (Inl TransactionAlreadyInProgress, coreWorldTx)
   \<and> commitTransaction exampleEnv 0 coreWorld = (Inl NoTransactionInProgress, coreWorld)
   \<and> rollbackTransaction exampleEnv 0 coreWorld = (Inl NoTransactionInProgress, coreWorld)
   \<and> fst (beginTransaction exampleEnv 0 coreWorld) = Inr ()
   \<and> inTransaction (daos (snd (beginTransaction exampleEnv 0 coreWorld)) 0)
   \<and> fst (commitTransaction exampleEnv 0 coreWorldTx) = Inr ()
   \<and> \<not> inTransaction (daos (snd (commitTransaction exampleEnv 0 coreWorldTx)) 0)
   \<and> txInvariant 0 coreWorldTx
   \<and> openTransactions 0 (trace coreWorldTx) \<le> 1
   \<and> txInvariant 0 (snd (commitTransaction exampleEnv 0 coreWorldTx))
   \<and> txInvariant 0 (snd (rollbackTransaction exampleEnv 0 coreWorldTx))
   \<and> txInvariant 0 (snd (beginTransaction exampleEnv 0 coreWorldTx))"
proof -
  have a: "inTransaction (daos coreWorldTx 0)"
    by (simp add: coreWorldTx_def coreWorld_def emptyWorld_def)
  have b: "\<not> inTransaction (daos coreWorld 0)"
    by (simp add: coreWorld_def emptyWorld_def)
  have c: "fst (beginTransaction exampleEnv 0 coreWorld) = Inr ()"
    by (simp add: beginTransaction_def runSql_def coreWorld_def emptyWorld_def exampleEnv_def)
  have d: "fst (commitTransaction exampleEnv 0 coreWorldTx) = Inr ()"
    by (simp add: commitTransaction_def runSql_def coreWorldTx_def coreWorld_def emptyWorld_def
        exampleEnv_def)
  have e: "txInvariant 0 coreWorldTx"
    by (simp add: txInvariant_def openTransactions_def coreWorldTx_def coreWorld_def emptyWorld_def)
  have c': "beginTransaction exampleEnv 0 coreWorld = (Inr (), snd (beginTransaction exampleEnv 0 coreWorld))"
    using c by (metis prod.collapse)
  have d': "commitTransaction exampleEnv 0 coreWorldTx = (Inr (), snd (commitTransaction exampleEnv 0 coreWorldTx))"
    using d by (metis prod.collapse)
  note T = single_transaction_per_handle[where w = coreWorldTx and r = 0 and E = exampleEnv and h = 0]
  note T' = single_transaction_per_handle[where w = coreWorld and r = 0 and E = exampleEnv and h = 0]
  from T a e d' have 1: "beginTransaction exampleEnv 0 coreWorldTx = (Inl TransactionAlreadyInProgress, coreWorldTx)"
    and 2: "\<not> inTransaction (daos (snd (commitTransaction exampleEnv 0 coreWorldTx)) 0)"
    and 3: "openTransactions 0 (trace coreWorldTx) \<le> 1"
    and 4: "txInvariant 0 (snd (commitTransaction exampleEnv 0 coreWorldTx))"
    and 5: "txInvariant 0 (snd (rollbackTransaction exampleEnv 0 coreWorldTx))"
    and 6: "txInvariant 0 (snd (beginTransaction exampleEnv 0 coreWorldTx))"
    by blast+
  from T' b c' have 7: "commitTransaction exampleEnv 0 coreWorld = (Inl NoTransactionInProgress, coreWorld)"
    and 8: "rollbackTransaction exampleEnv 0 coreWorld = (Inl NoTransactionInProgress, coreWorld)"
    and 9: "inTransaction (daos (snd (beginTransaction exampleEnv 0 coreWorld)) 0)"
    by blast+
  from 1 2 3 4 5 6 7 8 9 c d e show ?thesis by blast
qed

section \<open>Access control in the manager\<close>

lemma getProperty_None: "(getProperty m k = None) = (m k = None \<and> k \<notin> set objectPrototypeMembers)"
  by (simp add: getProperty_def split: option.split)

lemma getProperty_Value: "(getProperty m k = Some (Value v)) = (m k = Some v)"
  by (simp add: getProperty_def split: option.split)


lemma set_foldl_setAdd: "set (foldl setAdd acc xs) = set acc \<union> set xs"
  by (induction xs arbitrary: acc) (auto simp: setAdd_def)

lemma addRoleDatabases_Inr:
  assumes "addRoleDatabases reg acc role = Inr acc'"
  shows "set acc' =
     set acc \<union> (case reg role of
                   None \<Rightarrow> {}
                 | Some rc \<Rightarrow> set (requiredDatabases rc)
                       \<union> (case optionalDatabases rc of None \<Rightarrow> {} | Some os \<Rightarrow> set os))"
proof (cases "getProperty reg role")
  case None
  with assms show ?thesis by (auto simp: addRoleDatabases_def getProperty_None)
next
  case (Some p)
  show ?thesis
  proof (cases p)
    case (Value rc)
    with Some have "reg role = Some rc" by (simp add: getProperty_Value)
    with assms Some Value show ?thesis
      by (auto simp: addRoleDatabases_def set_foldl_setAdd split: option.splits)
  next
    case (Inherited n)
    with assms Some show ?thesis by (simp add: addRoleDatabases_def)
  qed
qed


lemma addRolesDatabases_Inr:
  "addRolesDatabases reg acc roles = Inr dbs \<Longrightarrow>
   set dbs =
     set acc \<union> (\<Union>role \<in> set roles.
                   case reg role of
                     None \<Rightarrow> {}
                   | Some rc \<Rightarrow> set (requiredDatabases rc)
                       \<union> (case optionalDatabases rc of None \<Rightarrow> {} | Some os \<Rightarrow> set os))"
proof (induction roles arbitrary: acc)
  case Nil
  then show ?case by simp
next
  case (Cons role roles)
  from Cons.prems obtain acc' where a: "addRoleDatabases reg acc role = Inr acc'"
    and r: "addRolesDatabases reg acc' roles = Inr dbs"
    by (auto split: sum.splits)
  from Cons.IH[OF r] addRoleDatabases_Inr[OF a] show ?case by (simp add: Un_assoc)
qed


lemma set_databasesOfRoles:
  "databasesOfRoles (roleRegistry w) (currentUserRoles w) = Inr dbs \<Longrightarrow> set dbs = wantedSet w"
  by (simp add: databasesOfRoles_def wantedSet_def addRolesDatabases_Inr)

lemma set_getCurrentUserDatabases:
  "getCurrentUserDatabases w = Inr dbs \<Longrightarrow> set dbs = wantedSet w"
  by (simp add: getCurrentUserDatabases_def set_databasesOfRoles)







section \<open>Cross-schema transactions\<close>

text \<open>
  C5.  The claim asks that a failing rollback never replaces the error that triggered
  it.  \<^verbatim>\<open>executeCrossSchemaTransaction\<close> awaits the rollbacks inside its \<^verbatim>\<open>catch\<close>
  block without a guard of their own: with one accessible handle, a callback that
  throws and an engine that rejects \<^verbatim>\<open>ROLLBACK\<close>, the caller receives the rollback's
  error, and the handle stays in its transaction.
\<close>

theorem cross_transaction_rollback_error_replaces_original:
  "fst (executeCrossSchemaTransaction failingRollbackEnv [''core''] failingCallback coreWorld)
     = Inl (Native ''disk I/O error'')
   \<and> inTransaction (daos (snd (executeCrossSchemaTransaction failingRollbackEnv [''core'']
                                  failingCallback coreWorld)) 0)"
  by (simp add: executeCrossSchemaTransaction_def hasAccessToDatabase_def
        getCurrentUserDatabases_def databasesOfRoles_def get_def connection_def
        getProperty_def promiseAll_def
        beginTransaction_def rollbackTransaction_def runSql_def
        failingRollbackEnv_def exampleEnv_def failingCallback_def
        coreWorld_def emptyWorld_def updDao_def record_event_def Let_def)

section \<open>The service registry\<close>

lemma connect_services: "connect E r w = (x, w') \<Longrightarrow> services w' = services w"
  by (auto simp: connect_def Let_def updDao_def record_event_def split: if_splits option.splits)

lemma runSql_services: "runSql E r sql ps w = (x, w') \<Longrightarrow> services w' = services w"
  by (auto simp: runSql_def Let_def record_event_def split: if_splits sum.splits)

lemma daoClose_services: "daoClose E r w = (x, w') \<Longrightarrow> services w' = services w"
  by (auto simp: daoClose_def Let_def updDao_def record_event_def split: if_splits option.splits)

lemma openExisting_services: "openExisting E name w = (x, w') \<Longrightarrow> services w' = services w"
  by (auto simp: openExisting_def Let_def split: if_splits prod.splits sum.splits option.splits
      dest!: connect_services runSql_services daoClose_services)

lemma getLazyLoading_services: "getLazyLoading E key w = (x, w') \<Longrightarrow> services w' = services w"
  by (auto simp: getLazyLoading_def Let_def split: if_splits prod.splits sum.splits option.splits
      dest!: openExisting_services runSql_services)

lemma svc_emit_services [simp]: "services (svc_emit s ev w) = services w"
  by (simp add: svc_emit_def)

lemma svc_handleError_services [simp]: "services (svc_handleError s ty w) = services w"
  by (simp add: svc_handleError_def)

lemma serviceInit_services: "serviceInit E s w = (x, w') \<Longrightarrow> services w' = services w"
  by (auto simp: serviceInit_def updSvc_def split: if_splits prod.splits sum.splits
      dest!: getLazyLoading_services)

lemma createService_registers:
  assumes "createService E schema table w = (Inr s, w1)"
  shows "map_of (services w1) (createServiceKey schema table) = Some s"
proof (cases "map_of (services w) (createServiceKey schema table)")
  case (Some s')
  with assms show ?thesis by (simp add: createService_def)
next
  case None
  with assms show ?thesis
    by (auto simp: createService_def Let_def newService_def updSvc_def sm_emit_def update_conv'
        split: if_splits prod.splits sum.splits option.splits
        dest!: serviceInit_services)
qed

lemma getService_registers:
  assumes "getService E schema table w = (Inr s, w1)"
  shows "map_of (services w1) (createServiceKey schema table) = Some s"
proof (cases "map_of (services w) (createServiceKey schema table)")
  case (Some s')
  with assms show ?thesis by (simp add: getService_def)
next
  case None
  with assms have "createService E schema table w = (Inr s, w1)" by (simp add: getService_def)
  then show ?thesis by (rule createService_registers)
qed

lemma live_key_returns_instance:
  assumes "map_of (services w) (createServiceKey schema table) = Some s"
  shows "createService E schema table w = (Inr s, w)" "getService E schema table w = (Inr s, w)"
  using assms by (simp_all add: createService_def getService_def)

text \<open>
  C8.  Once \<^verbatim>\<open>getService\<close> (or \<^verbatim>\<open>createService\<close>) has returned a service for a
  schema and table, a following \<^verbatim>\<open>getService\<close> or \<^verbatim>\<open>createService\<close> for the same
  names returns the same reference and the world unchanged: no instance is constructed.
  The same holds whenever the key is live in the registry.
\<close>

theorem getService_returns_same_instance:
  "(getService E schema table w = (Inr s, w1) \<longrightarrow>
      getService E' schema table w1 = (Inr s, w1) \<and> createService E' schema table w1 = (Inr s, w1))
   \<and> (createService E schema table w = (Inr s, w1) \<longrightarrow>
      getService E' schema table w1 = (Inr s, w1) \<and> createService E' schema table w1 = (Inr s, w1))
   \<and> (map_of (services w) (createServiceKey schema table) = Some s \<longrightarrow>
      createService E schema table w = (Inr s, w) \<and> getService E schema table w = (Inr s, w))"
proof (intro conjI impI)
  assume "getService E schema table w = (Inr s, w1)"
  then have k: "map_of (services w1) (createServiceKey schema table) = Some s"
    by (rule getService_registers)
  from live_key_returns_instance[OF k]
  show "getService E' schema table w1 = (Inr s, w1)" "createService E' schema table w1 = (Inr s, w1)"
    by simp_all
next
  assume "createService E schema table w = (Inr s, w1)"
  then have k: "map_of (services w1) (createServiceKey schema table) = Some s"
    by (rule createService_registers)
  from live_key_returns_instance[OF k]
  show "getService E' schema table w1 = (Inr s, w1)" "createService E' schema table w1 = (Inr s, w1)"
    by simp_all
next
  assume k: "map_of (services w) (createServiceKey schema table) = Some s"
  from live_key_returns_instance[OF k]
  show "createService E schema table w = (Inr s, w)" "getService E schema table w = (Inr s, w)"
    by simp_all
qed

theorem getService_same_instance_witness:
  "fst (getService exampleEnv ''core'' ''orders'' coreWorld) = Inr 0
   \<and> nextSvc (snd (getService exampleEnv ''core'' ''orders'' coreWorld)) = 1
   \<and> getService exampleEnv ''core'' ''orders'' (snd (getService exampleEnv ''core'' ''orders'' coreWorld))
       = (Inr 0, snd (getService exampleEnv ''core'' ''orders'' coreWorld))
   \<and> map_of (services serviceWorld) (createServiceKey ''core'' ''users'') = Some 0
   \<and> createService exampleEnv ''core'' ''users'' serviceWorld = (Inr 0, serviceWorld)"
proof -
  let ?w1 = "snd (getService exampleEnv ''core'' ''orders'' coreWorld)"
  have a: "fst (getService exampleEnv ''core'' ''orders'' coreWorld) = Inr 0"
    and n: "nextSvc ?w1 = 1"
    by (simp_all add: getService_def createService_def createServiceKey_def newService_def
        updSvc_def sm_emit_def Let_def coreWorld_def emptyWorld_def)
  then have a': "getService exampleEnv ''core'' ''orders'' coreWorld = (Inr 0, ?w1)"
    by (metis prod.collapse)
  have b: "map_of (services serviceWorld) (createServiceKey ''core'' ''users'') = Some 0"
    by (simp add: serviceWorld_def createServiceKey_def)
  from getService_returns_same_instance[where E = exampleEnv and E' = exampleEnv
      and schema = "''core''" and table = "''orders''" and w = coreWorld and s = 0 and ?w1.0 = ?w1] a'
  have 1: "getService exampleEnv ''core'' ''orders'' ?w1 = (Inr 0, ?w1)" by blast
  from getService_returns_same_instance[where E = exampleEnv and E' = exampleEnv
      and schema = "''core''" and table = "''users''" and w = serviceWorld and s = 0] b
  have 2: "createService exampleEnv ''core'' ''users'' serviceWorld = (Inr 0, serviceWorld)" by blast
  from a n 1 2 b show ?thesis by blast
qed

section \<open>Closing a service\<close>

lemma daoClose_frame:
  "daoClose E d w = (x, w') \<Longrightarrow>
     connections w' = connections w \<and> roleRegistry w' = roleRegistry w
     \<and> currentUserRoles w' = currentUserRoles w \<and> svcs w' = svcs w"
  by (auto simp: daoClose_def Let_def updDao_def record_event_def split: if_splits option.splits)

lemma daoClose_disconnects:
  "daoClose E d w = (Inr u, w') \<Longrightarrow> \<not> isConnected (daos w' d)"
  by (auto simp: daoClose_def Let_def updDao_def record_event_def isConnected_def
      split: if_splits option.splits)

lemma hasAccess_cong:
  "roleRegistry w' = roleRegistry w \<Longrightarrow> currentUserRoles w' = currentUserRoles w \<Longrightarrow>
     hasAccessToDatabase w' k = hasAccessToDatabase w k"
  by (simp add: hasAccessToDatabase_def getCurrentUserDatabases_def)

text \<open>
  C9.  When a service shares its DAO with the manager's connection map (as \<^verbatim>\<open>init\<close>
  leaves it) and \<^verbatim>\<open>close\<close> resolves, the DAO is disconnected and the service's flags
  are reset, but the connection map is unchanged: \<^verbatim>\<open>get\<close> on that accessible key
  returns the disconnected handle instead of throwing the not-connected error.
\<close>

theorem service_close_leaves_closed_handle_cached:
  assumes shared: "dao (svcs w s) = Some (Value d)"
      "map_of (connections w) (schemaName (svcs w s)) = Some d"
    and access: "hasAccessToDatabase w (schemaName (svcs w s)) = Inr True"
    and closed: "serviceClose E s w = (Inr True, w')"
  shows "connections w' = connections w
     \<and> \<not> isConnected (daos w' d)
     \<and> get (schemaName (svcs w s)) w' = (Inr (Value d), w')
     \<and> \<not> isOpened (svcs w' s) \<and> \<not> isInitialized (svcs w' s)"
proof -
  from closed shared(1) obtain w1 where
    c: "daoClose E d w = (Inr (), w1)" and
    w': "w' = svc_emit s ''closed''
               (updSvc s (\<lambda>v. v\<lparr>isOpened := False, isInitialized := False,
                                  eventListeners := [], errorHandlers := []\<rparr>) w1)"
    by (auto simp: serviceClose_def split: prod.splits sum.splits)
  from daoClose_frame[OF c] have f: "connections w1 = connections w"
    "roleRegistry w1 = roleRegistry w" "currentUserRoles w1 = currentUserRoles w" by simp_all
  have f': "connections w' = connections w" "roleRegistry w' = roleRegistry w"
    "currentUserRoles w' = currentUserRoles w" "daos w' = daos w1"
    using f by (simp_all add: w' svc_emit_def updSvc_def)
  from daoClose_disconnects[OF c] f'(4) have dc: "\<not> isConnected (daos w' d)" by simp
  from access hasAccess_cong[OF f'(2,3)]
  have acc: "hasAccessToDatabase w' (schemaName (svcs w s)) = Inr True" by simp
  have g: "get (schemaName (svcs w s)) w' = (Inr (Value d), w')"
    using acc shared(2) f'(1) by (simp add: get_def connection_def getProperty_def)
  have fl: "\<not> isOpened (svcs w' s) \<and> \<not> isInitialized (svcs w' s)"
    by (simp add: w' svc_emit_def updSvc_def)
  from f'(1) dc g fl show ?thesis by blast
qed

theorem service_close_witness:
  "isConnected (daos serviceWorld 0)
   \<and> fst (serviceClose exampleEnv 0 serviceWorld) = Inr True
   \<and> connections (snd (serviceClose exampleEnv 0 serviceWorld)) = [(''core'', 0)]
   \<and> \<not> isConnected (daos (snd (serviceClose exampleEnv 0 serviceWorld)) 0)
   \<and> fst (get ''core'' (snd (serviceClose exampleEnv 0 serviceWorld))) = Inr (Value 0)"
proof -
  let ?w' = "snd (serviceClose exampleEnv 0 serviceWorld)"
  have a: "dao (svcs serviceWorld 0) = Some (Value 0)" "schemaName (svcs serviceWorld 0) = ''core''"
    "connections serviceWorld = [(''core'', 0)]" "isConnected (daos serviceWorld 0)"
    by (simp_all add: serviceWorld_def coreWorld_def emptyWorld_def isConnected_def)
  have b: "map_of (connections serviceWorld) (schemaName (svcs serviceWorld 0)) = Some 0"
    by (simp add: a)
  have c: "hasAccessToDatabase serviceWorld (schemaName (svcs serviceWorld 0)) = Inr True"
    by (simp add: a hasAccessToDatabase_def getCurrentUserDatabases_def databasesOfRoles_def
        serviceWorld_def coreWorld_def emptyWorld_def)
  have d: "fst (serviceClose exampleEnv 0 serviceWorld) = Inr True"
    by (simp add: serviceClose_def daoClose_def Let_def exampleEnv_def
        serviceWorld_def coreWorld_def emptyWorld_def)
  then have d': "serviceClose exampleEnv 0 serviceWorld = (Inr True, ?w')"
    by (metis prod.collapse)
  from service_close_leaves_closed_handle_cached[OF a(1) b c d'] a d
  show ?thesis by simp
qed

section \<open>Role switches\<close>

subsection \<open>The open phase touches new handles only\<close>

lemma touchesFrom_refl: "touchesFrom n w w"
  by (simp add: touchesFrom_def)

lemma touchesFrom_trans:
  assumes "touchesFrom n w w1" "touchesFrom n w1 w2"
  shows "touchesFrom n w w2"
proof -
  from assms(1) obtain t1 where t1: "trace w1 = trace w @ t1" "list_all (\<lambda>e. n \<le> eventRef e) t1"
    by (auto simp: touchesFrom_def)
  from assms(2) obtain t2 where t2: "trace w2 = trace w1 @ t2" "list_all (\<lambda>e. n \<le> eventRef e) t2"
    by (auto simp: touchesFrom_def)
  from t1 t2 have "trace w2 = trace w @ (t1 @ t2) \<and> list_all (\<lambda>e. n \<le> eventRef e) (t1 @ t2)"
    by simp
  then have "\<exists>tr. trace w2 = trace w @ tr \<and> list_all (\<lambda>e. n \<le> eventRef e) tr" by blast
  with assms show ?thesis by (simp add: touchesFrom_def)
qed

lemma connect_touches: "n \<le> r \<Longrightarrow> connect E r w = (x, w') \<Longrightarrow> touchesFrom n w w'"
  by (auto simp: connect_def Let_def updDao_def record_event_def touchesFrom_def
      split: if_splits option.splits)

lemma runSql_touches: "n \<le> r \<Longrightarrow> runSql E r sql ps w = (x, w') \<Longrightarrow> touchesFrom n w w'"
  by (auto simp: runSql_def Let_def record_event_def touchesFrom_def
      split: if_splits sum.splits)

lemma daoClose_touches: "n \<le> r \<Longrightarrow> daoClose E r w = (x, w') \<Longrightarrow> touchesFrom n w w'"
  by (auto simp: daoClose_def Let_def updDao_def record_event_def touchesFrom_def
      split: if_splits option.splits)

lemma alloc_touches:
  "n \<le> nextDao w \<Longrightarrow>
     touchesFrom n w (w\<lparr>nextDao := Suc (nextDao w), daos := (daos w)(nextDao w := d)\<rparr>)"
  by (simp add: touchesFrom_def)

lemma openExisting_touches:
  assumes n: "n \<le> nextDao w" and o: "openExisting E name w = (x, w')"
  shows "touchesFrom n w w'" and "\<And>d. x = Inr d \<Longrightarrow> d = nextDao w"
proof -
  let ?f = "(if endsWith name ''.db'' then name else name @ ''.db'')"
  let ?p = "documentDirectoryPath E @ ''/../databases/'' @ ?f"
  let ?r = "nextDao w"
  let ?w0 = "w\<lparr>nextDao := Suc ?r,
                 daos := (daos w)(?r := \<lparr>dbName = ?f, db = False, isOpen = False, inTransaction = False\<rparr>)\<rparr>"
  have both: "touchesFrom n w w' \<and> (\<forall>d. x = Inr d \<longrightarrow> d = nextDao w)"
  proof (cases "ensureDirectory E (documentDirectoryPath E)")
    case (Some e)
    with o show ?thesis by (auto simp: openExisting_def Let_def touchesFrom_refl)
  next
    case None
    show ?thesis
    proof (cases "fileExists E ?p")
      case False
      with o None show ?thesis by (auto simp: openExisting_def Let_def touchesFrom_refl)
    next
      case True
      have a: "touchesFrom n w ?w0" using n by (rule alloc_touches)
      obtain x1 w1 where c: "connect E ?r ?w0 = (x1, w1)" by (cases "connect E ?r ?w0")
      from connect_touches[OF n c] a have t1: "touchesFrom n w w1" by (rule touchesFrom_trans[rotated])
      show ?thesis
      proof (cases x1)
        case (Inl e)
        obtain x3 w3 where cl: "daoClose E ?r w1 = (x3, w3)" by (cases "daoClose E ?r w1")
        from daoClose_touches[OF n cl] t1 have "touchesFrom n w w3" by (rule touchesFrom_trans[rotated])
        with o None True c Inl cl show ?thesis
          by (auto simp: openExisting_def Let_def split: sum.splits)
      next
        case (Inr u)
        obtain x2 w2 where rs: "runSql E ?r ''PRAGMA integrity_check'' [] w1 = (x2, w2)"
          by (cases "runSql E ?r ''PRAGMA integrity_check'' [] w1")
        from runSql_touches[OF n rs] t1 have t2: "touchesFrom n w w2" by (rule touchesFrom_trans[rotated])
        show ?thesis
        proof (cases x2)
          case (Inl e)
          obtain x3 w3 where cl: "daoClose E ?r w2 = (x3, w3)" by (cases "daoClose E ?r w2")
          from daoClose_touches[OF n cl] t2 have "touchesFrom n w w3" by (rule touchesFrom_trans[rotated])
          with o None True c \<open>x1 = Inr u\<close> rs Inl cl show ?thesis
            by (auto simp: openExisting_def Let_def split: sum.splits)
        next
          case (Inr u')
          with o None True c \<open>x1 = Inr u\<close> rs t2 show ?thesis
            by (auto simp: openExisting_def Let_def)
        qed
      qed
    qed
  qed
  from both show "touchesFrom n w w'" by simp
  from both show "\<And>d. x = Inr d \<Longrightarrow> d = nextDao w" by simp
qed


lemma touches_opens: "touchesFrom n w w' \<Longrightarrow> opensOnly n K w w'"
  by (simp add: touchesFrom_def opensOnly_def)

lemma opensOnly_refl: "opensOnly n K w w"
  by (simp add: opensOnly_def)

lemma opensOnly_trans:
  assumes "opensOnly n K w w1" "opensOnly n K w1 w2"
  shows "opensOnly n K w w2"
proof -
  from assms(1) obtain t1 where t1: "trace w1 = trace w @ t1" "list_all (\<lambda>e. n \<le> eventRef e) t1"
    by (auto simp: opensOnly_def)
  from assms(2) obtain t2 where t2: "trace w2 = trace w1 @ t2" "list_all (\<lambda>e. n \<le> eventRef e) t2"
    by (auto simp: opensOnly_def)
  from t1 t2 have "trace w2 = trace w @ (t1 @ t2) \<and> list_all (\<lambda>e. n \<le> eventRef e) (t1 @ t2)"
    by simp
  then have "\<exists>tr. trace w2 = trace w @ tr \<and> list_all (\<lambda>e. n \<le> eventRef e) tr" by blast
  with assms show ?thesis by (simp add: opensOnly_def)
qed

lemma opensOnly_mono: "K \<subseteq> K' \<Longrightarrow> opensOnly n K w w' \<Longrightarrow> opensOnly n K' w w'"
  by (auto simp: opensOnly_def)

lemma register_opens:
  assumes "k \<in> K" "map_of (connections w) k = None"
  shows "opensOnly n K w (w\<lparr>connections := AList.update k d (connections w)\<rparr>)"
  using assms by (auto simp: opensOnly_def update_conv')

lemma connection_None: "connection w k = None \<Longrightarrow> map_of (connections w) k = None"
  by (simp add: connection_def getProperty_None)

lemma connection_Value: "(connection w k = Some (Value d)) = (map_of (connections w) k = Some d)"
  by (simp add: connection_def getProperty_Value)

lemma initDatabase_opens:
  assumes n: "n \<le> nextDao w" and k: "k \<in> K" and i: "initDatabase E k w = (f, w')"
  shows "opensOnly n K w w'"
proof (cases "connection w k")
  case (Some d)
  with i show ?thesis by (simp add: initDatabase_def opensOnly_refl)
next
  case None
  note mn = connection_None[OF None]
  show ?thesis
  proof (cases "schemaConfigurations E k")
    case False
    with i None have "w' = w"
      by (auto simp: initDatabase_def split: if_splits sum.splits)
    then show ?thesis by (simp add: opensOnly_refl)
  next
    case True
    obtain x1 w1 where o: "openExisting E k w = (x1, w1)" by (cases "openExisting E k w")
    note t1 = openExisting_touches(1)[OF n o]
    show ?thesis
    proof (cases x1)
      case (Inl e)
      with i None True o have "w' = w1"
        by (auto simp: initDatabase_def split: if_splits sum.splits)
      with t1 show ?thesis by (simp add: touches_opens)
    next
      case (Inr d)
      with openExisting_touches(2)[OF n o] have d: "d = nextDao w" by simp
      from t1 have nd: "nextDao w \<le> nextDao w1" by (simp add: touchesFrom_def)
      obtain x2 w2 where rs: "runSql E d ''PRAGMA integrity_check'' [] w1 = (x2, w2)"
        by (cases "runSql E d ''PRAGMA integrity_check'' [] w1")
      from n d have "n \<le> d" by simp
      from runSql_touches[OF this rs] t1 have t2: "touchesFrom n w w2"
        by (rule touchesFrom_trans[rotated])
      show ?thesis
      proof (cases x2)
        case (Inl e)
        with i None True o \<open>x1 = Inr d\<close> rs have "w' = w2"
          by (auto simp: initDatabase_def split: if_splits sum.splits)
        with t2 show ?thesis by (simp add: touches_opens)
      next
        case (Inr u)
        with i None True o \<open>x1 = Inr d\<close> rs
        have w': "w' = w2\<lparr>connections := AList.update k d (connections w2)\<rparr>"
          by (auto simp: initDatabase_def split: if_splits)
        from t2 mn have "map_of (connections w2) k = None" by (simp add: touchesFrom_def)
        from register_opens[OF k this] have "opensOnly n K w2 w'" by (simp add: w')
        with touches_opens[OF t2] show ?thesis by (rule opensOnly_trans)
      qed
    qed
  qed
qed

lemma initDatabases_opens:
  "n \<le> nextDao w \<Longrightarrow> set ks \<subseteq> K \<Longrightarrow> initDatabases E ks w = (f, w') \<Longrightarrow> opensOnly n K w w'"
proof (induction ks arbitrary: w f w')
  case Nil
  then show ?case by (simp add: opensOnly_refl)
next
  case (Cons k ks)
  obtain f1 w1 where i: "initDatabase E k w = (f1, w1)" by (cases "initDatabase E k w")
  obtain f2 w2 where r: "initDatabases E ks w1 = (f2, w2)" by (cases "initDatabases E ks w1")
  from Cons.prems(3) i r have w': "w' = w2" by simp
  from Cons.prems(2) have k: "k \<in> K" and ks: "set ks \<subseteq> K" by simp_all
  from initDatabase_opens[OF Cons.prems(1) k i] have o1: "opensOnly n K w w1" .
  then have "n \<le> nextDao w1" using Cons.prems(1) by (simp add: opensOnly_def)
  from Cons.IH[OF this ks r] have "opensOnly n K w1 w2" .
  with o1 show ?case unfolding w' by (rule opensOnly_trans)
qed


subsection \<open>The close phase closes cached handles of unwanted keys only\<close>

lemma closesOnlyI:
  assumes "trace w' = trace w @ tr"
    and "\<And>e. e \<in> set tr \<Longrightarrow> \<exists>k\<in>K. \<exists>r. e = NativeClose r \<and> map_of (connections w) k = Some r"
    and "\<And>k. k \<notin> K \<Longrightarrow> map_of (connections w') k = map_of (connections w) k"
    and "\<And>k r. map_of (connections w') k = Some r \<Longrightarrow> map_of (connections w) k = Some r"
    and "\<And>r. (\<And>k. k \<in> K \<Longrightarrow> map_of (connections w) k \<noteq> Some r) \<Longrightarrow> daos w' r = daos w r"
    and "roleRegistry w' = roleRegistry w" and "currentUserRoles w' = currentUserRoles w"
  shows "closesOnly K w w'"
proof -
  from assms(1,2) have "\<exists>tr. trace w' = trace w @ tr
         \<and> (\<forall>e\<in>set tr. \<exists>k\<in>K. \<exists>r. e = NativeClose r \<and> map_of (connections w) k = Some r)"
    by blast
  moreover from assms(3) have "\<forall>k. k \<notin> K \<longrightarrow> map_of (connections w') k = map_of (connections w) k"
    by blast
  moreover from assms(4)
  have "\<forall>k r. map_of (connections w') k = Some r \<longrightarrow> map_of (connections w) k = Some r"
    by blast
  moreover from assms(5)
  have "\<forall>r. (\<forall>k\<in>K. map_of (connections w) k \<noteq> Some r) \<longrightarrow> daos w' r = daos w r"
    by blast
  ultimately show ?thesis using assms(6,7) unfolding closesOnly_def by (intro conjI)
qed

lemma closesOnlyD:
  assumes c: "closesOnly K w w'"
  shows "\<exists>tr. trace w' = trace w @ tr
         \<and> (\<forall>e\<in>set tr. \<exists>k\<in>K. \<exists>r. e = NativeClose r \<and> map_of (connections w) k = Some r)"
    and "\<And>k. k \<notin> K \<Longrightarrow> map_of (connections w') k = map_of (connections w) k"
    and "\<And>k r. map_of (connections w') k = Some r \<Longrightarrow> map_of (connections w) k = Some r"
    and "\<And>r. (\<And>k. k \<in> K \<Longrightarrow> map_of (connections w) k \<noteq> Some r) \<Longrightarrow> daos w' r = daos w r"
    and "roleRegistry w' = roleRegistry w" and "currentUserRoles w' = currentUserRoles w"
proof -
  note u = c[unfolded closesOnly_def]
  from u show "\<exists>tr. trace w' = trace w @ tr
         \<and> (\<forall>e\<in>set tr. \<exists>k\<in>K. \<exists>r. e = NativeClose r \<and> map_of (connections w) k = Some r)"
    by (rule conjunct1)
  from u have 2: "\<forall>k. k \<notin> K \<longrightarrow> map_of (connections w') k = map_of (connections w) k"
    by (elim conjE)
  from u have 3: "\<forall>k r. map_of (connections w') k = Some r \<longrightarrow> map_of (connections w) k = Some r"
    by (elim conjE)
  from u have 4: "\<forall>r. (\<forall>k\<in>K. map_of (connections w) k \<noteq> Some r) \<longrightarrow> daos w' r = daos w r"
    by (elim conjE)
  from u show "roleRegistry w' = roleRegistry w" by (elim conjE)
  from u show "currentUserRoles w' = currentUserRoles w" by (elim conjE)
  from 2 show "\<And>k. k \<notin> K \<Longrightarrow> map_of (connections w') k = map_of (connections w) k" by blast
  from 3 show "\<And>k r. map_of (connections w') k = Some r \<Longrightarrow> map_of (connections w) k = Some r"
    by blast
  from 4 show "\<And>r. (\<And>k. k \<in> K \<Longrightarrow> map_of (connections w) k \<noteq> Some r) \<Longrightarrow> daos w' r = daos w r"
    by blast
qed

lemma closesOnly_refl: "closesOnly K w w"
  by (rule closesOnlyI[where tr = "[]"]) simp_all

lemma closesOnly_trans:
  assumes a: "closesOnly K w w1" and b: "closesOnly K w1 w2"
  shows "closesOnly K w w2"
proof -
  from closesOnlyD(1)[OF a] obtain t1 where t1: "trace w1 = trace w @ t1"
    "\<forall>e\<in>set t1. \<exists>k\<in>K. \<exists>r. e = NativeClose r \<and> map_of (connections w) k = Some r"
    by blast
  from closesOnlyD(1)[OF b] obtain t2 where t2: "trace w2 = trace w1 @ t2"
    "\<forall>e\<in>set t2. \<exists>k\<in>K. \<exists>r. e = NativeClose r \<and> map_of (connections w1) k = Some r"
    by blast
  note sub = closesOnlyD(3)[OF a]
  show ?thesis
  proof (rule closesOnlyI[where tr = "t1 @ t2"])
    show "trace w2 = trace w @ t1 @ t2" using t1(1) t2(1) by simp
  next
    fix e assume "e \<in> set (t1 @ t2)"
    then have "e \<in> set t1 \<or> e \<in> set t2" by simp
    then show "\<exists>k\<in>K. \<exists>r. e = NativeClose r \<and> map_of (connections w) k = Some r"
    proof
      assume "e \<in> set t1" with t1(2) show ?thesis by blast
    next
      assume "e \<in> set t2"
      with t2(2) obtain k r where "k \<in> K" "e = NativeClose r" "map_of (connections w1) k = Some r"
        by blast
      with sub[of k r] show ?thesis by blast
    qed
  next
    fix k assume "k \<notin> K"
    with closesOnlyD(2)[OF a, of k] closesOnlyD(2)[OF b, of k]
    show "map_of (connections w2) k = map_of (connections w) k" by simp
  next
    fix k r assume "map_of (connections w2) k = Some r"
    then have "map_of (connections w1) k = Some r" by (rule closesOnlyD(3)[OF b])
    then show "map_of (connections w) k = Some r" by (rule sub)
  next
    fix r assume h: "\<And>k. k \<in> K \<Longrightarrow> map_of (connections w) k \<noteq> Some r"
    have "daos w1 r = daos w r" using h by (rule closesOnlyD(4)[OF a])
    moreover have "daos w2 r = daos w1 r"
    proof (rule closesOnlyD(4)[OF b])
      fix k assume "k \<in> K"
      with h[of k] sub[of k r] show "map_of (connections w1) k \<noteq> Some r" by blast
    qed
    ultimately show "daos w2 r = daos w r" by simp
  next
    show "roleRegistry w2 = roleRegistry w"
      using closesOnlyD(5)[OF a] closesOnlyD(5)[OF b] by simp
  next
    show "currentUserRoles w2 = currentUserRoles w"
      using closesOnlyD(6)[OF a] closesOnlyD(6)[OF b] by simp
  qed
qed

lemma closesOnly_mono:
  assumes s: "K \<subseteq> K'" and c: "closesOnly K w w'"
  shows "closesOnly K' w w'"
proof -
  from closesOnlyD(1)[OF c] obtain tr where t: "trace w' = trace w @ tr"
    "\<forall>e\<in>set tr. \<exists>k\<in>K. \<exists>r. e = NativeClose r \<and> map_of (connections w) k = Some r"
    by blast
  show ?thesis
  proof (rule closesOnlyI[where tr = tr])
    show "trace w' = trace w @ tr" by (rule t(1))
  next
    fix e assume "e \<in> set tr"
    with t(2) s show "\<exists>k\<in>K'. \<exists>r. e = NativeClose r \<and> map_of (connections w) k = Some r" by blast
  next
    fix k assume "k \<notin> K'"
    with s have "k \<notin> K" by blast
    then show "map_of (connections w') k = map_of (connections w) k" by (rule closesOnlyD(2)[OF c])
  next
    fix k r assume "map_of (connections w') k = Some r"
    then show "map_of (connections w) k = Some r" by (rule closesOnlyD(3)[OF c])
  next
    fix r assume h: "\<And>k. k \<in> K' \<Longrightarrow> map_of (connections w) k \<noteq> Some r"
    show "daos w' r = daos w r"
    proof (rule closesOnlyD(4)[OF c])
      fix k assume "k \<in> K"
      with s have "k \<in> K'" by blast
      then show "map_of (connections w) k \<noteq> Some r" by (rule h)
    qed
  next
    show "roleRegistry w' = roleRegistry w" by (rule closesOnlyD(5)[OF c])
  next
    show "currentUserRoles w' = currentUserRoles w" by (rule closesOnlyD(6)[OF c])
  qed
qed

lemma daoClose_effect:
  assumes "daoClose E d w = (x, w1)"
  shows "connections w1 = connections w" "roleRegistry w1 = roleRegistry w"
    "currentUserRoles w1 = currentUserRoles w"
    "trace w1 = trace w \<or> trace w1 = trace w @ [NativeClose d]"
    "\<And>r. r \<noteq> d \<Longrightarrow> daos w1 r = daos w r"
  using assms
  by (auto simp: daoClose_def Let_def updDao_def record_event_def split: if_splits option.splits)

lemma daoClose_closes:
  assumes m: "map_of (connections w) k = Some d" and c: "daoClose E d w = (x, w1)"
  shows "closesOnly {k} w w1"
proof -
  note e = daoClose_effect[OF c]
  from e(4) obtain tr where tr: "trace w1 = trace w @ tr" "set tr \<subseteq> {NativeClose d}"
  proof
    assume "trace w1 = trace w"
    then have "trace w1 = trace w @ []" "set [] \<subseteq> {NativeClose d}" by simp_all
    then show ?thesis by (rule that)
  next
    assume "trace w1 = trace w @ [NativeClose d]"
    moreover have "set [NativeClose d] \<subseteq> {NativeClose d}" by simp
    ultimately show ?thesis by (rule that)
  qed
  show ?thesis
  proof (rule closesOnlyI[where tr = tr])
    show "trace w1 = trace w @ tr" by (rule tr(1))
  next
    fix ev assume "ev \<in> set tr"
    with tr(2) have "ev = NativeClose d" by blast
    with m show "\<exists>k\<in>{k}. \<exists>r. ev = NativeClose r \<and> map_of (connections w) k = Some r" by blast
  next
    fix k' show "map_of (connections w1) k' = map_of (connections w) k'" by (simp add: e(1))
  next
    fix k' r assume "map_of (connections w1) k' = Some r"
    then show "map_of (connections w) k' = Some r" by (simp add: e(1))
  next
    fix r assume "\<And>k'. k' \<in> {k} \<Longrightarrow> map_of (connections w) k' \<noteq> Some r"
    then have "map_of (connections w) k \<noteq> Some r" by simp
    with m have "r \<noteq> d" by auto
    then show "daos w1 r = daos w r" by (rule e(5))
  next
    show "roleRegistry w1 = roleRegistry w" by (rule e(2))
  next
    show "currentUserRoles w1 = currentUserRoles w" by (rule e(3))
  qed
qed

lemma unregister_closes:
  "closesOnly {k} w (w\<lparr>connections := AList.delete k (connections w)\<rparr>)"
proof (rule closesOnlyI[where tr = "[]"])
  fix k' assume "k' \<notin> {k}"
  then show "map_of (connections (w\<lparr>connections := AList.delete k (connections w)\<rparr>)) k'
      = map_of (connections w) k'"
    by (simp add: delete_conv')
next
  fix k' r
  assume "map_of (connections (w\<lparr>connections := AList.delete k (connections w)\<rparr>)) k' = Some r"
  then show "map_of (connections w) k' = Some r"
    by (simp add: delete_conv' split: if_splits)
qed simp_all

lemma closeDatabases_closes: "closesOnly (set ks) w (closeDatabases E ks w)"
proof (induction ks arbitrary: w)
  case Nil
  show ?case by (simp add: closesOnly_refl)
next
  case (Cons k ks)
  have sub: "set ks \<subseteq> set (k # ks)" "{k} \<subseteq> set (k # ks)" by auto
  show ?case
  proof (cases "connection w k")
    case None
    with closesOnly_mono[OF sub(1) Cons.IH[of w]] show ?thesis by simp
  next
    case (Some h)
    show ?thesis
    proof (cases h)
      case (Inherited p)
      with Some closesOnly_mono[OF sub(1) Cons.IH[of w]] show ?thesis by simp
    next
      case (Value d)
      with Some have m: "map_of (connections w) k = Some d" by (simp add: connection_Value)
      from Some Value have cv: "connection w k = Some (Value d)" by simp
      obtain x w1 where c: "daoClose E d w = (x, w1)" by (cases "daoClose E d w")
      from closesOnly_mono[OF sub(2) daoClose_closes[OF m c]]
      have s1: "closesOnly (set (k # ks)) w w1" .
      show ?thesis
      proof (cases x)
        case (Inl e)
        from closesOnly_mono[OF sub(1) Cons.IH[of w1]] s1
        have "closesOnly (set (k # ks)) w (closeDatabases E ks w1)"
          by (rule closesOnly_trans[rotated])
        with cv c Inl show ?thesis by simp
      next
        case (Inr u)
        let ?w2 = "w1\<lparr>connections := AList.delete k (connections w1)\<rparr>"
        from closesOnly_mono[OF sub(2) unregister_closes[of k w1]] s1
        have s2: "closesOnly (set (k # ks)) w ?w2" by (rule closesOnly_trans[rotated])
        from closesOnly_mono[OF sub(1) Cons.IH[of ?w2]] s2
        have "closesOnly (set (k # ks)) w (closeDatabases E ks ?w2)"
          by (rule closesOnly_trans[rotated])
        with cv c Inr show ?thesis by simp
      qed
    qed
  qed
qed


subsection \<open>Open before close\<close>

lemma wantedSet_cong:
  "roleRegistry w' = roleRegistry w \<Longrightarrow> currentUserRoles w' = currentUserRoles w \<Longrightarrow>
     wantedSet w' = wantedSet w"
  by (simp add: wantedSet_def)

lemma wf_bound:
  assumes "wfConnections w" "map_of (connections w) k = Some r"
  shows "r < nextDao w"
proof -
  from assms(2) have "(k, r) \<in> set (connections w)" by (rule map_of_SomeD)
  then have "r \<in> set (map snd (connections w))" by force
  with assms(1) show ?thesis by (auto simp: wfConnections_def list_all_iff)
qed

lemma wf_inj:
  assumes "wfConnections w" "map_of (connections w) k = Some r" "map_of (connections w) k' = Some r"
  shows "k = k'"
proof -
  from assms(1) have "inj_on snd (set (connections w))"
    by (simp add: wfConnections_def distinct_map)
  moreover from assms(2) have "(k, r) \<in> set (connections w)" by (rule map_of_SomeD)
  moreover from assms(3) have "(k', r) \<in> set (connections w)" by (rule map_of_SomeD)
  ultimately have "(k, r) = (k', r)" unfolding inj_on_def by force
  then show ?thesis by simp
qed

lemma opensOnlyD:
  assumes o: "opensOnly n K w w'"
  shows "\<exists>tr. trace w' = trace w @ tr \<and> (\<forall>e\<in>set tr. n \<le> eventRef e)"
    and "\<And>r. r < n \<Longrightarrow> daos w' r = daos w r"
    and "roleRegistry w' = roleRegistry w" and "currentUserRoles w' = currentUserRoles w"
    and "\<And>k r. map_of (connections w) k = Some r \<Longrightarrow> map_of (connections w') k = Some r"
    and "\<And>k. k \<notin> K \<Longrightarrow> map_of (connections w') k = map_of (connections w) k"
  using o unfolding opensOnly_def list_all_iff by blast+

text \<open>
  C3.  Whenever \<^verbatim>\<open>setCurrentUserRoles\<close> succeeds on a well-formed connection map, the
  native calls it made split into an open phase followed by a close phase.  The open
  phase only touches handles allocated during the call, so it closes no cached
  connection; the close phase consists of closes of connections cached for keys that
  were wanted before and are wanted no longer.  Every key of the new wanted set (the
  default key among them) that had a cached connection keeps it: its handle is never
  closed, stays in the map, and is unchanged.
\<close>

theorem role_switch_opens_before_closes:
  assumes wf: "wfConnections w"
    and ok: "setCurrentUserRoles E userRoles primaryRole w = (Inr (), w')"
  shows "\<exists>tr1 tr2. trace w' = trace w @ tr1 @ tr2
     \<and> (\<forall>e\<in>set tr1. nextDao w \<le> eventRef e)
     \<and> (\<forall>e\<in>set tr2. \<exists>k r. e = NativeClose r \<and> map_of (connections w) k = Some r
            \<and> k \<in> wantedSet w \<and> k \<notin> wantedSet w')
     \<and> (\<forall>k r. k \<in> wantedSet w' \<and> map_of (connections w) k = Some r \<longrightarrow>
            r < nextDao w \<and> NativeClose r \<notin> set (tr1 @ tr2)
            \<and> map_of (connections w') k = Some r \<and> daos w' r = daos w r)"
proof -
  define w0 where "w0 = w\<lparr>currentUserRoles := userRoles,
                          currentRole := pickRole primaryRole userRoles\<rparr>"
  from ok obtain w1 where init: "initializeUserRoleConnections E w0 = (Inr (), w1)"
    and cl: "cleanupUnusedConnections E (currentUserRoles w) w1 = (Inr (), w')"
    unfolding setCurrentUserRoles_def Let_def w0_def
    by (auto split: option.splits prod.splits sum.splits)
  from init obtain new f where new: "getCurrentUserDatabases w0 = Inr new"
    and ids: "initDatabases E new w0 = (f, w1)"
    unfolding initializeUserRoleConnections_def
    by (auto split: prod.splits sum.splits if_splits)
  have w0: "nextDao w0 = nextDao w" "trace w0 = trace w" "connections w0 = connections w"
    "daos w0 = daos w" "roleRegistry w0 = roleRegistry w" "currentUserRoles w0 = userRoles"
    by (simp_all add: w0_def)
  have "nextDao w \<le> nextDao w0" by (simp add: w0)
  from initDatabases_opens[OF this subset_refl ids]
  have opens: "opensOnly (nextDao w) (set new) w0 w1" .
  note o = opensOnlyD[OF opens]
  from cl obtain prev cur where prev: "databasesOfRoles (roleRegistry w1) (currentUserRoles w) = Inr prev"
    and cur: "getCurrentUserDatabases w1 = Inr cur"
    and w': "w' = closeDatabases E (filter (\<lambda>db. db \<notin> set cur) prev) w1"
    unfolding cleanupUnusedConnections_def Let_def
    by (auto split: sum.splits)
  define toClose where "toClose = filter (\<lambda>db. db \<notin> set cur) prev"
  have closes: "closesOnly (set toClose) w1 w'"
    unfolding w' toClose_def by (rule closeDatabases_closes)
  note c = closesOnlyD[OF closes]
  have ws1: "wantedSet w1 = wantedSet w0" using o(3,4) by (rule wantedSet_cong)
  have ws': "wantedSet w' = wantedSet w1" using c(5,6) by (rule wantedSet_cong)
  have newset: "set new = wantedSet w'"
    using set_getCurrentUserDatabases[OF new] by (simp add: ws1 ws')
  have curset: "set cur = wantedSet w'"
    using set_getCurrentUserDatabases[OF cur] by (simp add: ws')
  from prev have "databasesOfRoles (roleRegistry w) (currentUserRoles w) = Inr prev"
    by (simp add: o(3) w0)
  then have "set prev = wantedSet w" by (rule set_databasesOfRoles)
  then have tc: "set toClose = wantedSet w - wantedSet w'"
    by (auto simp: toClose_def curset)
  from o(1) obtain tr1 where tr1: "trace w1 = trace w @ tr1" "\<forall>e\<in>set tr1. nextDao w \<le> eventRef e"
    by (auto simp: w0)
  from c(1) obtain tr2 where tr2: "trace w' = trace w1 @ tr2"
    "\<forall>e\<in>set tr2. \<exists>k\<in>set toClose. \<exists>r. e = NativeClose r \<and> map_of (connections w1) k = Some r"
    by blast
  have orig: "\<And>k. k \<in> set toClose \<Longrightarrow> map_of (connections w1) k = map_of (connections w) k"
  proof -
    fix k assume "k \<in> set toClose"
    with tc newset have "k \<notin> set new" by simp
    from o(6)[OF this] show "map_of (connections w1) k = map_of (connections w) k" by (simp add: w0)
  qed
  have 1: "trace w' = trace w @ tr1 @ tr2" using tr1(1) tr2(1) by simp
  have 3: "\<forall>e\<in>set tr2. \<exists>k r. e = NativeClose r \<and> map_of (connections w) k = Some r
            \<and> k \<in> wantedSet w \<and> k \<notin> wantedSet w'"
  proof
    fix e assume "e \<in> set tr2"
    with tr2(2) obtain k r where kr: "k \<in> set toClose" "e = NativeClose r"
      "map_of (connections w1) k = Some r" by blast
    from orig[OF kr(1)] kr(3) have "map_of (connections w) k = Some r" by simp
    with kr(1,2) tc show "\<exists>k r. e = NativeClose r \<and> map_of (connections w) k = Some r
            \<and> k \<in> wantedSet w \<and> k \<notin> wantedSet w'" by blast
  qed
  have 4: "\<forall>k r. k \<in> wantedSet w' \<and> map_of (connections w) k = Some r \<longrightarrow>
            r < nextDao w \<and> NativeClose r \<notin> set (tr1 @ tr2)
            \<and> map_of (connections w') k = Some r \<and> daos w' r = daos w r"
  proof (intro allI impI)
    fix k r assume h: "k \<in> wantedSet w' \<and> map_of (connections w) k = Some r"
    then have kw: "k \<in> wantedSet w'" and m: "map_of (connections w) k = Some r" by simp_all
    from wf_bound[OF wf m] have b: "r < nextDao w" .
    have n1: "NativeClose r \<notin> set tr1"
    proof
      assume "NativeClose r \<in> set tr1"
      with tr1(2) have "nextDao w \<le> eventRef (NativeClose r)" by blast
      with b show False by simp
    qed
    have other: "\<And>k'. k' \<in> set toClose \<Longrightarrow> map_of (connections w1) k' \<noteq> Some r"
    proof
      fix k' assume k': "k' \<in> set toClose" and "map_of (connections w1) k' = Some r"
      with orig[OF k'] have "map_of (connections w) k' = Some r" by simp
      from wf_inj[OF wf m this] have "k = k'" .
      with k' tc kw show False by simp
    qed
    have n2: "NativeClose r \<notin> set tr2"
    proof
      assume "NativeClose r \<in> set tr2"
      with tr2(2) obtain k' r' where "k' \<in> set toClose" "NativeClose r = NativeClose r'"
        "map_of (connections w1) k' = Some r'" by blast
      with other[of k'] show False by simp
    qed
    from m have m1: "map_of (connections w1) k = Some r" using o(5)[of k r] by (simp add: w0)
    from kw tc have "k \<notin> set toClose" by simp
    from c(2)[OF this] m1 have m': "map_of (connections w') k = Some r" by simp
    from o(2)[OF b] have d1: "daos w1 r = daos w r" by (simp add: w0)
    from c(4)[of r] other have "daos w' r = daos w1 r" by blast
    with d1 have d': "daos w' r = daos w r" by simp
    from b n1 n2 m' d' show "r < nextDao w \<and> NativeClose r \<notin> set (tr1 @ tr2)
            \<and> map_of (connections w') k = Some r \<and> daos w' r = daos w r" by simp
  qed
  from 1 tr1(2) 3 4 show ?thesis by blast
qed



lemma guest_switch_eval:
  "fst (setCurrentUserRoles exampleEnv [''staff''] None guestWorld) = Inr ()"
  "trace (snd (setCurrentUserRoles exampleEnv [''staff''] None guestWorld))
     = [NativeOpen 2, NativeExec 2 ''PRAGMA integrity_check'' [] True,
        NativeExec 2 ''PRAGMA integrity_check'' [] True, NativeClose 1]"
  by (simp_all add: setCurrentUserRoles_def initializeUserRoleConnections_def
      getCurrentUserDatabases_def databasesOfRoles_def addRoleDatabases_def setAdd_def
      getProperty_def connection_def objectPrototypeMembers_def
      initDatabase_def openExisting_def connect_def runSql_def daoClose_def endsWith_def
      cleanupUnusedConnections_def isRequired_def pickRole_def
      updDao_def record_event_def Let_def
      guestWorld_def emptyWorld_def exampleEnv_def staffRole_def guestRole_def blankDao_def)

theorem role_switch_witness:
  "wfConnections guestWorld
   \<and> fst (setCurrentUserRoles exampleEnv [''staff''] None guestWorld) = Inr ()
   \<and> trace (snd (setCurrentUserRoles exampleEnv [''staff''] None guestWorld))
       = [NativeOpen 2, NativeExec 2 ''PRAGMA integrity_check'' [] True,
          NativeExec 2 ''PRAGMA integrity_check'' [] True, NativeClose 1]
   \<and> map_of (connections (snd (setCurrentUserRoles exampleEnv [''staff''] None guestWorld))) ''core''
       = Some 0
   \<and> daos (snd (setCurrentUserRoles exampleEnv [''staff''] None guestWorld)) 0 = daos guestWorld 0"
proof -
  let ?w' = "snd (setCurrentUserRoles exampleEnv [''staff''] None guestWorld)"
  have wf: "wfConnections guestWorld"
    by (simp add: wfConnections_def guestWorld_def emptyWorld_def)
  have ok: "setCurrentUserRoles exampleEnv [''staff''] None guestWorld = (Inr (), ?w')"
    using guest_switch_eval(1) by (metis prod.collapse)
  have core: "''core'' \<in> wantedSet ?w'" by (simp add: wantedSet_def)
  have m: "map_of (connections guestWorld) ''core'' = Some 0"
    by (simp add: guestWorld_def emptyWorld_def)
  from role_switch_opens_before_closes[OF wf ok] core m
  have "map_of (connections ?w') ''core'' = Some 0 \<and> daos ?w' 0 = daos guestWorld 0"
    by blast
  with wf guest_switch_eval show ?thesis by simp
qed


subsection \<open>Well-formedness is kept by a role switch\<close>

lemma wf_same:
  "connections w' = connections w \<Longrightarrow> nextDao w \<le> nextDao w' \<Longrightarrow> wfConnections w \<Longrightarrow>
     wfConnections w'"
  by (auto simp: wfConnections_def list_all_iff)

lemma update_fresh_key: "map_of al k = None \<Longrightarrow> AList.update k v al = al @ [(k, v)]"
  by (induction al) (auto split: if_splits)

lemma wf_register:
  assumes wf: "wfConnections w" and c: "connections w1 = connections w"
    and d: "nextDao w \<le> d" "d < nextDao w1" and k: "map_of (connections w1) k = None"
  shows "wfConnections (w1\<lparr>connections := AList.update k d (connections w1)\<rparr>)"
proof -
  from wf have b: "\<forall>r\<in>set (map snd (connections w)). r < nextDao w"
    and di: "distinct (map snd (connections w))"
    by (auto simp: wfConnections_def list_all_iff)
  from b d(1) have nd: "d \<notin> set (map snd (connections w))" by auto
  from k c have "map_of (connections w) k = None" by simp
  then have u: "AList.update k d (connections w) = connections w @ [(k, d)]"
    by (rule update_fresh_key)
  from di b d nd show ?thesis
    by (auto simp: wfConnections_def list_all_iff c u)
qed

lemma wf_unregister:
  "wfConnections w \<Longrightarrow> wfConnections (w\<lparr>connections := AList.delete k (connections w)\<rparr>)"
  by (auto simp: wfConnections_def list_all_iff AList.delete_eq distinct_map_filter)

lemma openExisting_allocates:
  assumes o: "openExisting E name w = (Inr d, w')"
  shows "d < nextDao w'"
proof -
  let ?f = "(if endsWith name ''.db'' then name else name @ ''.db'')"
  let ?p = "documentDirectoryPath E @ ''/../databases/'' @ ?f"
  let ?r = "nextDao w"
  let ?w0 = "w\<lparr>nextDao := Suc ?r,
                 daos := (daos w)(?r := \<lparr>dbName = ?f, db = False, isOpen = False, inTransaction = False\<rparr>)\<rparr>"
  from o have ed: "ensureDirectory E (documentDirectoryPath E) = None"
    by (auto simp: openExisting_def Let_def split: option.splits)
  with o have fe: "fileExists E ?p" by (auto simp: openExisting_def Let_def split: if_splits)
  obtain x1 w1 where c: "connect E ?r ?w0 = (x1, w1)" by (cases "connect E ?r ?w0")
  from connect_touches[OF le_refl c] have n1: "Suc ?r \<le> nextDao w1" by (simp add: touchesFrom_def)
  obtain x2 w2 where rs: "runSql E ?r ''PRAGMA integrity_check'' [] w1 = (x2, w2)"
    by (cases "runSql E ?r ''PRAGMA integrity_check'' [] w1")
  from runSql_touches[OF le_refl rs] n1 have n2: "Suc ?r \<le> nextDao w2" by (simp add: touchesFrom_def)
  from o ed fe c rs have "w' = w2 \<and> d = ?r"
    by (auto simp: openExisting_def Let_def split: sum.splits prod.splits)
  with n2 show ?thesis by simp
qed

lemma initDatabase_wf:
  assumes wf: "wfConnections w" and i: "initDatabase E k w = (f, w')"
  shows "wfConnections w'"
proof (cases "connection w k")
  case (Some d)
  with i wf show ?thesis by (simp add: initDatabase_def)
next
  case None
  note mn = connection_None[OF None]
  show ?thesis
  proof (cases "schemaConfigurations E k")
    case False
    with i None have "w' = w" by (auto simp: initDatabase_def split: if_splits sum.splits)
    with wf show ?thesis by simp
  next
    case True
    obtain x1 w1 where o: "openExisting E k w = (x1, w1)" by (cases "openExisting E k w")
    note t1 = openExisting_touches(1)[OF le_refl o]
    then have s1: "connections w1 = connections w" "nextDao w \<le> nextDao w1"
      by (simp_all add: touchesFrom_def)
    show ?thesis
    proof (cases x1)
      case (Inl e)
      with i None True o have "w' = w1"
        by (auto simp: initDatabase_def split: if_splits sum.splits)
      with wf_same[OF s1 wf] show ?thesis by simp
    next
      case (Inr d)
      with openExisting_touches(2)[OF le_refl o] have d: "d = nextDao w" by simp
      from o Inr have dl: "d < nextDao w1" by (simp add: openExisting_allocates)
      obtain x2 w2 where rs: "runSql E d ''PRAGMA integrity_check'' [] w1 = (x2, w2)"
        by (cases "runSql E d ''PRAGMA integrity_check'' [] w1")
      from runSql_touches[OF le_refl rs]
      have s2: "connections w2 = connections w1" "nextDao w1 \<le> nextDao w2"
        by (simp_all add: touchesFrom_def)
      show ?thesis
      proof (cases x2)
        case (Inl e)
        with i None True o \<open>x1 = Inr d\<close> rs have "w' = w2"
          by (auto simp: initDatabase_def split: if_splits sum.splits)
        with wf_same[OF s2 wf_same[OF s1 wf]] show ?thesis by simp
      next
        case (Inr u)
        with i None True o \<open>x1 = Inr d\<close> rs
        have w': "w' = w2\<lparr>connections := AList.update k d (connections w2)\<rparr>"
          by (auto simp: initDatabase_def split: if_splits)
        have "wfConnections (w2\<lparr>connections := AList.update k d (connections w2)\<rparr>)"
        proof (rule wf_register[OF wf])
          show "connections w2 = connections w" by (simp add: s1 s2)
          show "nextDao w \<le> d" by (simp add: d)
          show "d < nextDao w2" using dl s2(2) by simp
          show "map_of (connections w2) k = None" using mn by (simp add: s1 s2)
        qed
        then show ?thesis by (simp add: w')
      qed
    qed
  qed
qed

lemma initDatabases_wf:
  "wfConnections w \<Longrightarrow> initDatabases E ks w = (f, w') \<Longrightarrow> wfConnections w'"
proof (induction ks arbitrary: w f w')
  case Nil
  then show ?case by simp
next
  case (Cons k ks)
  obtain f1 w1 where i: "initDatabase E k w = (f1, w1)" by (cases "initDatabase E k w")
  obtain f2 w2 where r: "initDatabases E ks w1 = (f2, w2)" by (cases "initDatabases E ks w1")
  from Cons.prems(2) i r have w': "w' = w2" by simp
  from Cons.IH[OF initDatabase_wf[OF Cons.prems(1) i] r] show ?case by (simp add: w')
qed

lemma closeDatabases_wf: "wfConnections w \<Longrightarrow> wfConnections (closeDatabases E ks w)"
proof (induction ks arbitrary: w)
  case Nil
  then show ?case by simp
next
  case (Cons k ks)
  show ?case
  proof (cases "connection w k")
    case None
    with Cons show ?thesis by simp
  next
    case (Some h)
    show ?thesis
    proof (cases h)
      case (Inherited p)
      with Some Cons show ?thesis by simp
    next
      case (Value d)
      with Some have cv: "connection w k = Some (Value d)" by simp
      obtain x w1 where c: "daoClose E d w = (x, w1)" by (cases "daoClose E d w")
      from daoClose_touches[OF le_refl c]
      have "connections w1 = connections w" "nextDao w \<le> nextDao w1"
        by (simp_all add: touchesFrom_def)
      from wf_same[OF this Cons.prems] have wf1: "wfConnections w1" .
      show ?thesis
      proof (cases x)
        case (Inl e)
        with cv c Cons.IH[OF wf1] show ?thesis by simp
      next
        case (Inr u)
        with cv c Cons.IH[OF wf_unregister[OF wf1, of k]] show ?thesis by simp
      qed
    qed
  qed
qed

lemma initializeUserRoleConnections_wf:
  assumes wf: "wfConnections w"
  shows "wfConnections (snd (initializeUserRoleConnections E w))"
proof (cases "getCurrentUserDatabases w")
  case (Inl e)
  with wf show ?thesis by (simp add: initializeUserRoleConnections_def)
next
  case (Inr dbs)
  obtain f w1 where ids: "initDatabases E dbs w = (f, w1)" by (cases "initDatabases E dbs w")
  from initDatabases_wf[OF wf ids] Inr ids show ?thesis
    by (simp add: initializeUserRoleConnections_def split: sum.splits)
qed

lemma cleanupUnusedConnections_wf:
  assumes wf: "wfConnections w"
  shows "wfConnections (snd (cleanupUnusedConnections E roles w))"
  using wf by (simp add: cleanupUnusedConnections_def closeDatabases_wf split: sum.splits)

lemma setCurrentUserRoles_wf:
  assumes wf: "wfConnections w"
  shows "wfConnections (snd (setCurrentUserRoles E userRoles primaryRole w))"
proof (cases "find (\<lambda>r. getProperty (roleRegistry w) r = None) userRoles")
  case (Some r)
  with wf show ?thesis by (simp add: setCurrentUserRoles_def)
next
  case None
  define w0 where "w0 = w\<lparr>currentUserRoles := userRoles,
                          currentRole := pickRole primaryRole userRoles\<rparr>"
  have wf0: "wfConnections w0" using wf by (simp add: w0_def wfConnections_def)
  obtain x w1 where i: "initializeUserRoleConnections E w0 = (x, w1)"
    by (cases "initializeUserRoleConnections E w0")
  from initializeUserRoleConnections_wf[OF wf0, of E] i have wf1: "wfConnections w1" by simp
  from None i wf1 cleanupUnusedConnections_wf[OF wf1] show ?thesis
    unfolding setCurrentUserRoles_def Let_def w0_def[symmetric]
    by (simp split: sum.splits)
qed

lemma emptyWorld_wf: "wfConnections emptyWorld"
  by (simp add: wfConnections_def emptyWorld_def)

end
